theory Spec2Isabelle
  imports
    Main
    "HOL-Library.AList"
    "HOL-Library.Char_ord"
    "HOL-Library.List_Lexorder"
    "HOL-Library.Multiset"
    "HOL-Library.Product_Lexorder"
begin

section \<open>Python values used by \<^verbatim>\<open>storage.py\<close>\<close>

text \<open>
  \<^verbatim>\<open>NewsStorage\<close> (src/api/spider/storage.py) keeps news records in Redis. Its methods
  are embedded as functions that take the Redis state and return the new one. Two things
  the methods read from their environment are parameters of the model: the clock
  (\<open>now\<close> stands for \<^verbatim>\<open>int(time.time() * 1000)\<close>) and the JSON codec
  (\<open>dumps\<close> for \<^verbatim>\<open>json.dumps\<close>, \<open>loads\<close> for \<^verbatim>\<open>json.loads\<close>).

  A \<^verbatim>\<open>news_data\<close> dictionary is an association list from field names to strings
  (the spiders pass string values); \<^verbatim>\<open>d.get(k, "")\<close> is \<open>dict_get\<close>.
\<close>

datatype py_error = ValueError | TypeError | ResponseError

type_synonym news_data = "(string \<times> string) list"

definition dict_get :: "(string \<times> 'v) list \<Rightarrow> string \<Rightarrow> 'v \<Rightarrow> 'v" where
  "dict_get d k dflt = (case map_of d k of None \<Rightarrow> dflt | Some v \<Rightarrow> v)"

subsection \<open>\<^verbatim>\<open>str(int)\<close> and \<^verbatim>\<open>int(str)\<close>\<close>

text \<open>The decimal digits are the characters with codes 48 to 57.\<close>

definition digit_char :: "nat \<Rightarrow> char" where
  "digit_char d = char_of (48 + d)"

definition digit_val :: "char \<Rightarrow> nat option" where
  "digit_val c =
     (let n = (of_char c :: nat) in if 48 \<le> n \<and> n \<le> 57 then Some (n - 48) else None)"

fun digits_of :: "nat \<Rightarrow> string" where
  "digits_of n =
     (if n < 10 then [digit_char n] else digits_of (n div 10) @ [digit_char (n mod 10)])"

declare digits_of.simps [simp del]

text \<open>\<^verbatim>\<open>str(i)\<close> for a Python int: decimal digits, with a minus sign when negative.\<close>

definition py_str :: "int \<Rightarrow> string" where
  "py_str i = (if i < 0 then CHR ''-'' # digits_of (nat (- i)) else digits_of (nat i))"

text \<open>
  \<^verbatim>\<open>int(s)\<close> for a string: surrounding whitespace is stripped, one sign is allowed, then
  decimal digits follow, where single underscores may separate digits. Anything else
  raises \<^verbatim>\<open>ValueError\<close>. (Python also accepts non-ASCII decimal digits and non-ASCII
  spaces, and refuses literals of more than 4300 digits; those are outside this model,
  which reads strings as bytes.)
\<close>

definition is_space :: "char \<Rightarrow> bool" where
  "is_space c = (let n = (of_char c :: nat) in (9 \<le> n \<and> n \<le> 13) \<or> (28 \<le> n \<and> n \<le> 32))"

definition strip :: "string \<Rightarrow> string" where
  "strip s = rev (dropWhile is_space (rev (dropWhile is_space s)))"

text \<open>
  \<open>parse_digits acc after_digit s\<close> reads the rest of a literal: \<open>acc\<close> is the value so
  far and \<open>after_digit\<close> says that the previous character was a digit (only then an
  underscore may follow, and only then the literal may end).
\<close>

fun parse_digits :: "nat \<Rightarrow> bool \<Rightarrow> string \<Rightarrow> nat option" where
  "parse_digits acc after_digit [] = (if after_digit then Some acc else None)"
| "parse_digits acc after_digit (c # cs) =
     (case digit_val c of
        Some d \<Rightarrow> parse_digits (acc * 10 + d) True cs
      | None \<Rightarrow> (if c = CHR ''_'' \<and> after_digit then parse_digits acc False cs else None))"

definition py_int :: "string \<Rightarrow> py_error + int" where
  "py_int s =
     (case strip s of
        [] \<Rightarrow> Inl ValueError
      | c # cs \<Rightarrow>
          (if c = CHR ''-'' then
             (case parse_digits 0 False cs of None \<Rightarrow> Inl ValueError | Some n \<Rightarrow> Inr (- int n))
           else if c = CHR ''+'' then
             (case parse_digits 0 False cs of None \<Rightarrow> Inl ValueError | Some n \<Rightarrow> Inr (int n))
           else
             (case parse_digits 0 False (c # cs) of None \<Rightarrow> Inl ValueError | Some n \<Rightarrow> Inr (int n))))"

section \<open>The Redis store\<close>

text \<open>
  Redis is the program's only state. The model keeps one keyspace per Redis type, each
  indexed by the full key string the program builds: strings, hashes (field/value lists),
  sorted sets (member/score lists with distinct members) and plain sets (lists without
  repetition). A key that is absent and a key whose hash, sorted set or set is empty
  are the same thing, as in Redis. The time-to-live the program sets on a key is
  recorded in \<open>ttl\<close>; the passing of time is not modelled, so a state is the store at
  one instant, and a key whose time-to-live has run out is simply an absent key.

  Two limits of Redis numbers matter. A rank index must be a signed 64-bit integer:
  \<^verbatim>\<open>ZREVRANGE\<close> answers an index outside that range with an error, which the client
  raises as \<^verbatim>\<open>ResponseError\<close>; \<open>zrevrange\<close> has that branch. A score is held as a
  double: the integers from \<open>-2^53\<close> to \<open>2^53\<close> are held exactly, and a larger one is
  rounded (or refused when it is no finite double). The model keeps scores as the
  integers the program sends and does no rounding, so it is the program on exact
  scores only; \<open>exact_score\<close> is that range, and the properties below that speak of a
  score or of a score bound the program sends carry it as a hypothesis.
\<close>

definition int64_ok :: "int \<Rightarrow> bool" where
  "int64_ok n = (- (2 ^ 63) \<le> n \<and> n < 2 ^ 63)"

definition exact_score :: "int \<Rightarrow> bool" where
  "exact_score n = (- (2 ^ 53) \<le> n \<and> n \<le> 2 ^ 53)"

type_synonym zset = "(string \<times> int) list"

record redis =
  strings :: "string \<Rightarrow> string option"
  hashes :: "string \<Rightarrow> (string \<times> string) list"
  zsets :: "string \<Rightarrow> zset"
  sets :: "string \<Rightarrow> string list"
  ttl :: "string \<Rightarrow> int option"

definition empty_redis :: redis where
  "empty_redis =
     \<lparr>strings = (\<lambda>_. None), hashes = (\<lambda>_. []), zsets = (\<lambda>_. []), sets = (\<lambda>_. []),
      ttl = (\<lambda>_. None)\<rparr>"

definition key_exists :: "redis \<Rightarrow> string \<Rightarrow> bool" where
  "key_exists r key =
     (\<not> (strings r key = None \<and> hashes r key = [] \<and> zsets r key = [] \<and> sets r key = []))"

text \<open>\<^verbatim>\<open>DEL key\<close>: the key disappears, whatever it held.\<close>

definition del :: "redis \<Rightarrow> string \<Rightarrow> redis" where
  "del r key =
     r\<lparr>strings := (strings r)(key := None), hashes := (hashes r)(key := []),
       zsets := (zsets r)(key := []), sets := (sets r)(key := []),
       ttl := (ttl r)(key := None)\<rparr>"

text \<open>\<^verbatim>\<open>HMSET key mapping\<close>: each field of the mapping is set, other fields stay.\<close>

definition hmset :: "redis \<Rightarrow> string \<Rightarrow> (string \<times> string) list \<Rightarrow> redis" where
  "hmset r key mapping =
     r\<lparr>hashes := (hashes r)(key := fold (\<lambda>(f, v). AList.update f v) mapping (hashes r key))\<rparr>"

definition hgetall :: "redis \<Rightarrow> string \<Rightarrow> (string \<times> string) list" where
  "hgetall r key = hashes r key"

text \<open>\<^verbatim>\<open>EXPIRE key seconds\<close> sets the time-to-live of an existing key.\<close>

definition expire :: "redis \<Rightarrow> string \<Rightarrow> int \<Rightarrow> redis" where
  "expire r key seconds = (if key_exists r key then r\<lparr>ttl := (ttl r)(key \<mapsto> seconds)\<rparr> else r)"

text \<open>\<^verbatim>\<open>SETEX key seconds value\<close> replaces whatever the key held.\<close>

definition setex :: "redis \<Rightarrow> string \<Rightarrow> int \<Rightarrow> string \<Rightarrow> redis" where
  "setex r key seconds v =
     (let r' = del r key
      in r'\<lparr>strings := (strings r')(key \<mapsto> v), ttl := (ttl r')(key \<mapsto> seconds)\<rparr>)"

definition get :: "redis \<Rightarrow> string \<Rightarrow> string option" where
  "get r key = strings r key"

subsection \<open>Sorted sets\<close>

text \<open>
  A sorted set orders its members by score and, among equal scores, by the bytes of the
  member. \<open>zsorted\<close> is that ascending order; \<^verbatim>\<open>ZREVRANGE\<close> reads it backwards.
\<close>

definition zkey :: "string \<times> int \<Rightarrow> int \<times> string" where
  "zkey e = (snd e, fst e)"

definition zsorted :: "zset \<Rightarrow> zset" where
  "zsorted z = sort_key zkey z"

definition zadd_members :: "zset \<Rightarrow> string \<Rightarrow> int \<Rightarrow> zset" where
  "zadd_members z m sc = (m, sc) # filter (\<lambda>e. fst e \<noteq> m) z"

definition zadd :: "redis \<Rightarrow> string \<Rightarrow> string \<Rightarrow> int \<Rightarrow> redis" where
  "zadd r key m sc = r\<lparr>zsets := (zsets r)(key := zadd_members (zsets r key) m sc)\<rparr>"

definition zcard :: "redis \<Rightarrow> string \<Rightarrow> nat" where
  "zcard r key = length (zsets r key)"

definition zscore :: "redis \<Rightarrow> string \<Rightarrow> string \<Rightarrow> int option" where
  "zscore r key m = map_of (zsets r key) m"

text \<open>
  \<^verbatim>\<open>ZREVRANGE key start stop\<close>: ranks count from the highest score; a negative
  index counts from the end; the range is clipped to the set, and is empty when it
  starts after its end or past the last rank (\<open>zrevrange_entries\<close>). An index that is
  no signed 64-bit integer is an error, whatever the key holds (\<open>zrevrange\<close>).
\<close>

definition zrevrange_entries :: "zset \<Rightarrow> int \<Rightarrow> int \<Rightarrow> zset" where
  "zrevrange_entries z start stop =
     (let llen = int (length z);
          start1 = (if start < 0 then llen + start else start);
          stop1 = (if stop < 0 then llen + stop else stop);
          start2 = (if start1 < 0 then 0 else start1)
      in if start2 > stop1 \<or> start2 \<ge> llen then []
         else (let stop2 = (if stop1 \<ge> llen then llen - 1 else stop1)
               in take (nat (stop2 - start2 + 1)) (drop (nat start2) (rev (zsorted z)))))"

definition zrevrange :: "redis \<Rightarrow> string \<Rightarrow> int \<Rightarrow> int \<Rightarrow> py_error + string list" where
  "zrevrange r key start stop =
     (if int64_ok start \<and> int64_ok stop
      then Inr (map fst (zrevrange_entries (zsets r key) start stop))
      else Inl ResponseError)"

definition in_score_range :: "int \<Rightarrow> int \<Rightarrow> string \<times> int \<Rightarrow> bool" where
  "in_score_range lo hi e = (lo \<le> snd e \<and> snd e \<le> hi)"

text \<open>\<^verbatim>\<open>ZRANGEBYSCORE key min max\<close>: the members with \<open>min \<le> score \<le> max\<close>, ascending.\<close>

definition zrangebyscore :: "redis \<Rightarrow> string \<Rightarrow> int \<Rightarrow> int \<Rightarrow> string list" where
  "zrangebyscore r key lo hi = map fst (filter (in_score_range lo hi) (zsorted (zsets r key)))"

definition zremrangebyscore :: "redis \<Rightarrow> string \<Rightarrow> int \<Rightarrow> int \<Rightarrow> redis" where
  "zremrangebyscore r key lo hi =
     r\<lparr>zsets := (zsets r)(key := filter (\<lambda>e. \<not> in_score_range lo hi e) (zsets r key))\<rparr>"

definition zrem :: "redis \<Rightarrow> string \<Rightarrow> string \<Rightarrow> redis" where
  "zrem r key m = r\<lparr>zsets := (zsets r)(key := filter (\<lambda>e. fst e \<noteq> m) (zsets r key))\<rparr>"

subsection \<open>Plain sets\<close>

definition sadd :: "redis \<Rightarrow> string \<Rightarrow> string \<Rightarrow> redis" where
  "sadd r key m = r\<lparr>sets := (sets r)(key := List.insert m (sets r key))\<rparr>"

definition srem :: "redis \<Rightarrow> string \<Rightarrow> string \<Rightarrow> redis" where
  "srem r key m = r\<lparr>sets := (sets r)(key := removeAll m (sets r key))\<rparr>"

definition smembers :: "redis \<Rightarrow> string \<Rightarrow> string list" where
  "smembers r key = sets r key"

section \<open>\<^verbatim>\<open>NewsStorage\<close>\<close>

subsection \<open>Key design\<close>

definition TIMELINE_ZSET :: string where "TIMELINE_ZSET = ''news:timeline''"
definition CATEGORY_PREFIX :: string where "CATEGORY_PREFIX = ''news:category:''"
definition LIST_HASH_PREFIX :: string where "LIST_HASH_PREFIX = ''news:list:''"
definition DETAIL_PREFIX :: string where "DETAIL_PREFIX = ''news:detail:''"
definition CATEGORIES_SET :: string where "CATEGORIES_SET = ''news:categories''"
definition EXPIRE_TIME :: int where "EXPIRE_TIME = 3600 * 24 * 7"

subsection \<open>\<^verbatim>\<open>save_news\<close>\<close>

text \<open>
  \<^verbatim>\<open>score = publish_time or int(time.time() * 1000)\<close>: \<^verbatim>\<open>None\<close> and \<open>0\<close> are both
  falsy, so both take the clock.
\<close>

definition save_score :: "int option \<Rightarrow> int \<Rightarrow> int" where
  "save_score publish_time now =
     (case publish_time of None \<Rightarrow> now | Some p \<Rightarrow> (if p = 0 then now else p))"

definition list_fields_of :: "news_data \<Rightarrow> string \<Rightarrow> int \<Rightarrow> (string \<times> string) list" where
  "list_fields_of news_data category score =
     [(''title'', dict_get news_data ''title'' ''''),
      (''category'', category),
      (''publish_time'', py_str score),
      (''author'', dict_get news_data ''author'' ''''),
      (''pic_path'', dict_get news_data ''pic_path'' ''''),
      (''url'', dict_get news_data ''url'' '''')]"

text \<open>
  The pipeline queues seven commands and \<^verbatim>\<open>execute()\<close> runs them in order; the method
  then returns \<^verbatim>\<open>True\<close>.
\<close>

definition save_news ::
  "(news_data \<Rightarrow> string) \<Rightarrow> int \<Rightarrow> redis \<Rightarrow> string \<Rightarrow> news_data \<Rightarrow> string \<Rightarrow> int option
     \<Rightarrow> bool \<times> redis" where
  "save_news dumps now r news_id news_data category publish_time =
     (let score = save_score publish_time now;
          list_hash_key = LIST_HASH_PREFIX @ news_id;
          list_fields = list_fields_of news_data category score;
          r1 = hmset r list_hash_key list_fields;
          r2 = expire r1 list_hash_key EXPIRE_TIME;
          detail_key = DETAIL_PREFIX @ news_id;
          r3 = setex r2 detail_key EXPIRE_TIME (dumps news_data);
          r4 = zadd r3 TIMELINE_ZSET news_id score;
          r5 = zadd r4 (CATEGORY_PREFIX @ category) news_id score;
          r6 = sadd r5 CATEGORIES_SET category
      in (True, r6))"

subsection \<open>\<^verbatim>\<open>get_news_list\<close>\<close>

datatype field_value = StrV string | IntV int

type_synonym item = "(string \<times> field_value) list"

text \<open>
  The loop body for one id whose hash is not empty: \<^verbatim>\<open>publish_time\<close>, when present, is
  replaced by its integer value (\<^verbatim>\<open>int()\<close> may raise), then \<^verbatim>\<open>id\<close> is set.
\<close>

definition item_of :: "string \<Rightarrow> (string \<times> string) list \<Rightarrow> py_error + item" where
  "item_of news_id hfields =
     (let fields0 = map (\<lambda>(k, v). (k, StrV v)) hfields
      in case map_of hfields ''publish_time'' of
           None \<Rightarrow> Inr (AList.update ''id'' (StrV news_id) fields0)
         | Some v \<Rightarrow>
             (case py_int v of
                Inl e \<Rightarrow> Inl e
              | Inr n \<Rightarrow>
                  Inr (AList.update ''id'' (StrV news_id)
                         (AList.update ''publish_time'' (IntV n) fields0))))"

fun collect_items :: "(string \<times> (string \<times> string) list) list \<Rightarrow> py_error + item list" where
  "collect_items [] = Inr []"
| "collect_items ((news_id, hfields) # rest) =
     (if hfields \<noteq> [] then
        (case item_of news_id hfields of
           Inl e \<Rightarrow> Inl e
         | Inr it \<Rightarrow>
             (case collect_items rest of Inl e \<Rightarrow> Inl e | Inr its \<Rightarrow> Inr (it # its)))
      else collect_items rest)"

record list_result =
  items :: "item list"
  total :: nat
  page :: int
  page_size :: int
  has_next :: bool

definition zset_key_of :: "string option \<Rightarrow> string" where
  "zset_key_of category =
     (case category of
        None \<Rightarrow> TIMELINE_ZSET
      | Some c \<Rightarrow> (if c \<noteq> [] then CATEGORY_PREFIX @ c else TIMELINE_ZSET))"

definition get_news_list ::
  "redis \<Rightarrow> string option \<Rightarrow> int \<Rightarrow> int \<Rightarrow> py_error + list_result" where
  "get_news_list r category pg pg_size =
     (let zset_key = zset_key_of category;
          tot = zcard r zset_key
      in if tot = 0 then
           Inr \<lparr>items = [], total = 0, page = pg, page_size = pg_size, has_next = False\<rparr>
         else
           (let start = (pg - 1) * pg_size;
                end = start + pg_size - 1
            in case zrevrange r zset_key start end of
                 Inl e \<Rightarrow> Inl e
               | Inr news_ids \<Rightarrow>
                   (if news_ids = [] then
                      Inr \<lparr>items = [], total = tot, page = pg, page_size = pg_size,
                           has_next = False\<rparr>
                    else
                      (let hash_results =
                             map (\<lambda>news_id. hgetall r (LIST_HASH_PREFIX @ news_id)) news_ids
                       in case collect_items (zip news_ids hash_results) of
                            Inl e \<Rightarrow> Inl e
                          | Inr its \<Rightarrow>
                              Inr \<lparr>items = its, total = tot, page = pg, page_size = pg_size,
                                   has_next = (start + int (length its) < int tot)\<rparr>))))"

subsection \<open>\<^verbatim>\<open>get_news_detail\<close>, \<^verbatim>\<open>get_categories\<close>\<close>

definition get_news_detail ::
  "(string \<Rightarrow> py_error + news_data) \<Rightarrow> redis \<Rightarrow> string \<Rightarrow> py_error + news_data option" where
  "get_news_detail loads r news_id =
     (case get r (DETAIL_PREFIX @ news_id) of
        None \<Rightarrow> Inr None
      | Some detail \<Rightarrow>
          (if detail \<noteq> [] then
             (case loads detail of
                Inl e \<Rightarrow> Inl e
              | Inr data \<Rightarrow> Inr (Some (AList.update ''id'' news_id data)))
           else Inr None))"

definition get_categories :: "redis \<Rightarrow> string list" where
  "get_categories r = smembers r CATEGORIES_SET"

subsection \<open>\<^verbatim>\<open>delete_news\<close>\<close>

definition delete_news :: "redis \<Rightarrow> string \<Rightarrow> string \<Rightarrow> bool \<times> redis" where
  "delete_news r news_id category =
     (let r1 = del r (LIST_HASH_PREFIX @ news_id);
          r2 = del r1 (DETAIL_PREFIX @ news_id);
          r3 = zrem r2 TIMELINE_ZSET news_id;
          r4 = zrem r3 (CATEGORY_PREFIX @ category) news_id;
          r5 = srem r4 CATEGORIES_SET category
      in (True, r5))"

subsection \<open>\<^verbatim>\<open>cleanup_old_news\<close>\<close>

record cleanup_stats =
  deleted :: nat
  categories_cleaned :: nat

definition cutoff_time :: "int \<Rightarrow> int \<Rightarrow> int" where
  "cutoff_time now days = now - days * 86400 * 1000"

definition delete_record_keys :: "string \<Rightarrow> redis \<Rightarrow> redis" where
  "delete_record_keys news_id r = del (del r (LIST_HASH_PREFIX @ news_id)) (DETAIL_PREFIX @ news_id)"

definition clean_category :: "int \<Rightarrow> string \<Rightarrow> redis \<Rightarrow> redis" where
  "clean_category cutoff category r = zremrangebyscore r (CATEGORY_PREFIX @ category) 0 cutoff"

text \<open>
  The ids and the categories are read before the pipeline runs; the pipeline then
  deletes both keys of every old id, trims the global timeline and trims the timeline
  of every category of the registry.
\<close>

definition cleanup_old_news :: "int \<Rightarrow> redis \<Rightarrow> int \<Rightarrow> cleanup_stats \<times> redis" where
  "cleanup_old_news now r days =
     (let cutoff = cutoff_time now days;
          old_ids = zrangebyscore r TIMELINE_ZSET 0 cutoff
      in if old_ids = [] then (\<lparr>deleted = 0, categories_cleaned = 0\<rparr>, r)
         else
           (let r1 = fold delete_record_keys old_ids r;
                r2 = zremrangebyscore r1 TIMELINE_ZSET 0 cutoff;
                categories = smembers r CATEGORIES_SET;
                r3 = fold (clean_category cutoff) categories r2
            in (\<lparr>deleted = length old_ids, categories_cleaned = length categories\<rparr>, r3)))"

section \<open>Notions used to state the properties\<close>

text \<open>
  The number of items the specification expects on page \<open>p\<close> of size \<open>S\<close> of a
  timeline with \<open>N\<close> entries (property P2 of the specification, in its words).
\<close>

definition page_item_count :: "int \<Rightarrow> int \<Rightarrow> int \<Rightarrow> int" where
  "page_item_count N p S = min S (max 0 (N - (p - 1) * S))"

text \<open>The timeline entries \<^verbatim>\<open>ZREVRANGE\<close> selects for a call of \<open>get_news_list\<close>.\<close>

definition page_window :: "redis \<Rightarrow> string option \<Rightarrow> int \<Rightarrow> int \<Rightarrow> zset" where
  "page_window r category pg pg_size =
     zrevrange_entries (zsets r (zset_key_of category))
       ((pg - 1) * pg_size) ((pg - 1) * pg_size + pg_size - 1)"

text \<open>The two rank indices of a call of \<open>get_news_list\<close> are signed 64-bit integers.\<close>

definition ranks_ok :: "int \<Rightarrow> int \<Rightarrow> bool" where
  "ranks_ok pg pg_size =
     (int64_ok ((pg - 1) * pg_size) \<and> int64_ok ((pg - 1) * pg_size + pg_size - 1))"

text \<open>Every score of the store is one that Redis holds exactly.\<close>

definition scores_exact :: "redis \<Rightarrow> bool" where
  "scores_exact r = (\<forall>key. \<forall>e \<in> set (zsets r key). exact_score (snd e))"

definition item_id :: "item \<Rightarrow> field_value option" where
  "item_id it = map_of it ''id''"

text \<open>
  A stored projection is readable when its \<^verbatim>\<open>publish_time\<close> field, if it has one, is
  accepted by \<^verbatim>\<open>int()\<close>. \<open>save_news\<close> only writes such projections.
\<close>

definition publish_time_ok :: "(string \<times> string) list \<Rightarrow> bool" where
  "publish_time_ok h =
     (case map_of h ''publish_time'' of
        None \<Rightarrow> True
      | Some v \<Rightarrow> (case py_int v of Inl _ \<Rightarrow> False | Inr _ \<Rightarrow> True))"

definition projections_ok :: "redis \<Rightarrow> bool" where
  "projections_ok r = (\<forall>i. publish_time_ok (hashes r (LIST_HASH_PREFIX @ i)))"

text \<open>
  A sorted set holds each member once; then \<open>zcard\<close>, the length of the list, is the
  number of members.
\<close>

definition members_distinct :: "redis \<Rightarrow> bool" where
  "members_distinct r = (\<forall>key. distinct (map fst (zsets r key)))"

text \<open>
  Histories of mutating calls, run from the empty store. Each \<open>Save\<close> and \<open>Sweep\<close>
  carries the clock reading of its call.
\<close>

datatype operation =
    Save string news_data string "int option" int
  | Delete string string
  | Sweep int int

fun apply_operation :: "(news_data \<Rightarrow> string) \<Rightarrow> operation \<Rightarrow> redis \<Rightarrow> redis" where
  "apply_operation dumps (Save news_id news_data category publish_time now) r =
     snd (save_news dumps now r news_id news_data category publish_time)"
| "apply_operation dumps (Delete news_id category) r = snd (delete_news r news_id category)"
| "apply_operation dumps (Sweep days now) r = snd (cleanup_old_news now r days)"

definition run :: "(news_data \<Rightarrow> string) \<Rightarrow> operation list \<Rightarrow> redis" where
  "run dumps ops = fold (apply_operation dumps) ops empty_redis"

fun saves :: "string \<Rightarrow> operation \<Rightarrow> bool" where
  "saves i (Save news_id _ _ _ _) = (news_id = i)"
| "saves i _ = False"

section \<open>Sample stores\<close>

text \<open>
  Concrete inputs for the closed theorems below: a stand-in JSON codec, the store of the
  specification's scenario (two saves in category \<^verbatim>\<open>tech\<close>), and stores reached by a few
  more calls.
\<close>

definition demo_dumps :: "news_data \<Rightarrow> string" where
  "demo_dumps d = ''{}''"

definition two_saves :: "(news_data \<Rightarrow> string) \<Rightarrow> int \<Rightarrow> int \<Rightarrow> redis" where
  "two_saves dumps now1 now2 =
     snd (save_news dumps now2
            (snd (save_news dumps now1 empty_redis ''a1'' [(''title'', ''T1'')] ''tech'' (Some 1000)))
            ''a2'' [(''title'', ''T2'')] ''tech'' (Some 2000))"

definition orphan_store :: redis where
  "orphan_store =
     snd (delete_news
            (snd (save_news demo_dumps 0 empty_redis ''a1'' [(''title'', ''T1'')] ''tech'' (Some 1000)))
            ''a1'' ''other'')"

definition boundary_store :: redis where
  "boundary_store =
     snd (save_news demo_dumps 0 empty_redis ''a1'' [(''title'', ''T1'')] ''tech'' (Some 1500))"

definition sweep_now :: int where
  "sweep_now = 86401500"

definition demo_loads :: "string \<Rightarrow> py_error + news_data" where
  "demo_loads s = (if s = ''{}'' then Inr [] else Inl ValueError)"

definition resaved_store :: redis where
  "resaved_store =
     snd (save_news demo_dumps 7777
            (snd (save_news demo_dumps 5 empty_redis ''a1'' [(''title'', ''T1'')] ''tech'' (Some 1000)))
            ''a1'' [(''title'', ''T1'')] ''tech'' (Some 0))"

section \<open>Keys and commands\<close>

text \<open>
  The five kinds of key start with different prefixes, so no key of one kind is a key of
  another; this is what lets the model keep one keyspace per Redis type.
\<close>

lemmas key_defs = TIMELINE_ZSET_def CATEGORY_PREFIX_def LIST_HASH_PREFIX_def DETAIL_PREFIX_def
  CATEGORIES_SET_def

lemmas cmd_defs = del_def hmset_def hgetall_def expire_def setex_def get_def zadd_def zcard_def
  zscore_def zrevrange_def zrangebyscore_def zremrangebyscore_def zrem_def sadd_def srem_def
  smembers_def

lemma keys_distinct [simp]:
  "LIST_HASH_PREFIX @ a \<noteq> DETAIL_PREFIX @ b" "DETAIL_PREFIX @ a \<noteq> LIST_HASH_PREFIX @ b"
  "LIST_HASH_PREFIX @ a \<noteq> CATEGORY_PREFIX @ b" "CATEGORY_PREFIX @ a \<noteq> LIST_HASH_PREFIX @ b"
  "DETAIL_PREFIX @ a \<noteq> CATEGORY_PREFIX @ b" "CATEGORY_PREFIX @ a \<noteq> DETAIL_PREFIX @ b"
  "LIST_HASH_PREFIX @ a \<noteq> TIMELINE_ZSET" "TIMELINE_ZSET \<noteq> LIST_HASH_PREFIX @ a"
  "DETAIL_PREFIX @ a \<noteq> TIMELINE_ZSET" "TIMELINE_ZSET \<noteq> DETAIL_PREFIX @ a"
  "CATEGORY_PREFIX @ a \<noteq> TIMELINE_ZSET" "TIMELINE_ZSET \<noteq> CATEGORY_PREFIX @ a"
  "LIST_HASH_PREFIX @ a \<noteq> CATEGORIES_SET" "CATEGORIES_SET \<noteq> LIST_HASH_PREFIX @ a"
  "DETAIL_PREFIX @ a \<noteq> CATEGORIES_SET" "CATEGORIES_SET \<noteq> DETAIL_PREFIX @ a"
  "CATEGORY_PREFIX @ a \<noteq> CATEGORIES_SET" "CATEGORIES_SET \<noteq> CATEGORY_PREFIX @ a"
  "TIMELINE_ZSET \<noteq> CATEGORIES_SET" "CATEGORIES_SET \<noteq> TIMELINE_ZSET"
  by (simp_all add: key_defs)

subsection \<open>What each method writes\<close>

lemma save_news_zsets_timeline:
  "zsets (snd (save_news dumps now r news_id d c pt)) TIMELINE_ZSET =
     zadd_members (zsets r TIMELINE_ZSET) news_id (save_score pt now)"
  by (simp add: save_news_def Let_def cmd_defs)

lemma save_news_zsets_category:
  "zsets (snd (save_news dumps now r news_id d c pt)) (CATEGORY_PREFIX @ c') =
     (if c' = c then zadd_members (zsets r (CATEGORY_PREFIX @ c)) news_id (save_score pt now)
      else zsets r (CATEGORY_PREFIX @ c'))"
  by (simp add: save_news_def Let_def cmd_defs)

lemma save_news_hashes:
  "hashes (snd (save_news dumps now r news_id d c pt)) (LIST_HASH_PREFIX @ i) =
     (if i = news_id
      then fold (\<lambda>(f, v). AList.update f v) (list_fields_of d c (save_score pt now))
             (hashes r (LIST_HASH_PREFIX @ i))
      else hashes r (LIST_HASH_PREFIX @ i))"
  by (simp add: save_news_def Let_def cmd_defs)

lemma save_news_strings:
  "strings (snd (save_news dumps now r news_id d c pt)) (DETAIL_PREFIX @ i) =
     (if i = news_id then Some (dumps d) else strings r (DETAIL_PREFIX @ i))"
  by (simp add: save_news_def Let_def cmd_defs)

lemma save_news_sets:
  "sets (snd (save_news dumps now r news_id d c pt)) CATEGORIES_SET =
     List.insert c (sets r CATEGORIES_SET)"
  by (simp add: save_news_def Let_def cmd_defs)

lemma delete_news_zsets_timeline:
  "zsets (snd (delete_news r news_id c)) TIMELINE_ZSET =
     filter (\<lambda>e. fst e \<noteq> news_id) (zsets r TIMELINE_ZSET)"
  by (simp add: delete_news_def Let_def cmd_defs)

lemma delete_news_zsets_category:
  "zsets (snd (delete_news r news_id c)) (CATEGORY_PREFIX @ c') =
     (if c' = c then filter (\<lambda>e. fst e \<noteq> news_id) (zsets r (CATEGORY_PREFIX @ c))
      else zsets r (CATEGORY_PREFIX @ c'))"
  by (simp add: delete_news_def Let_def cmd_defs)

lemma delete_news_hashes:
  "hashes (snd (delete_news r news_id c)) (LIST_HASH_PREFIX @ i) =
     (if i = news_id then [] else hashes r (LIST_HASH_PREFIX @ i))"
  by (simp add: delete_news_def Let_def cmd_defs)

lemma delete_news_strings:
  "strings (snd (delete_news r news_id c)) (DETAIL_PREFIX @ i) =
     (if i = news_id then None else strings r (DETAIL_PREFIX @ i))"
  by (simp add: delete_news_def Let_def cmd_defs)

lemma delete_news_sets:
  "sets (snd (delete_news r news_id c)) CATEGORIES_SET = removeAll c (sets r CATEGORIES_SET)"
  by (simp add: delete_news_def Let_def cmd_defs)

lemma fold_delete_record_keys_zsets:
  "zsets (fold delete_record_keys ids r) TIMELINE_ZSET = zsets r TIMELINE_ZSET"
  "zsets (fold delete_record_keys ids r) (CATEGORY_PREFIX @ c) = zsets r (CATEGORY_PREFIX @ c)"
  by (induction ids arbitrary: r; simp add: delete_record_keys_def del_def)+

lemma fold_delete_record_keys_sets:
  "sets (fold delete_record_keys ids r) CATEGORIES_SET = sets r CATEGORIES_SET"
  by (induction ids arbitrary: r) (simp_all add: delete_record_keys_def del_def)

lemma fold_delete_record_keys_hashes:
  "hashes (fold delete_record_keys ids r) (LIST_HASH_PREFIX @ i) =
     (if i \<in> set ids then [] else hashes r (LIST_HASH_PREFIX @ i))"
  by (induction ids arbitrary: r) (simp_all add: delete_record_keys_def del_def)

lemma fold_delete_record_keys_strings:
  "strings (fold delete_record_keys ids r) (DETAIL_PREFIX @ i) =
     (if i \<in> set ids then None else strings r (DETAIL_PREFIX @ i))"
  by (induction ids arbitrary: r) (simp_all add: delete_record_keys_def del_def)

lemma fold_clean_category_zsets_category:
  "zsets (fold (clean_category cutoff) cs r) (CATEGORY_PREFIX @ c) =
     (if c \<in> set cs then filter (\<lambda>e. \<not> in_score_range 0 cutoff e) (zsets r (CATEGORY_PREFIX @ c))
      else zsets r (CATEGORY_PREFIX @ c))"
  by (induction cs arbitrary: r) (auto simp: clean_category_def zremrangebyscore_def)

lemma fold_clean_category_other:
  "zsets (fold (clean_category cutoff) cs r) TIMELINE_ZSET = zsets r TIMELINE_ZSET"
  "hashes (fold (clean_category cutoff) cs r) = hashes r"
  "strings (fold (clean_category cutoff) cs r) = strings r"
  "sets (fold (clean_category cutoff) cs r) = sets r"
  by (induction cs arbitrary: r; simp add: clean_category_def zremrangebyscore_def)+

lemma zrangebyscore_set:
  "set (zrangebyscore r key lo hi) = fst ` {e \<in> set (zsets r key). in_score_range lo hi e}"
  by (simp add: zrangebyscore_def zsorted_def)

lemma zrangebyscore_empty_iff:
  "zrangebyscore r key lo hi = [] \<longleftrightarrow> (\<forall>e \<in> set (zsets r key). \<not> in_score_range lo hi e)"
proof -
  have "zrangebyscore r key lo hi = [] \<longleftrightarrow> set (zrangebyscore r key lo hi) = {}"
    by simp
  then show ?thesis
    unfolding zrangebyscore_set by blast
qed

lemma old_ids_iff:
  "i \<in> set (zrangebyscore r key lo hi) \<longleftrightarrow> (\<exists>sc. (i, sc) \<in> set (zsets r key) \<and> lo \<le> sc \<and> sc \<le> hi)"
  by (force simp: zrangebyscore_set in_score_range_def)

lemma cleanup_zsets_timeline:
  "zsets (snd (cleanup_old_news now r days)) TIMELINE_ZSET =
     filter (\<lambda>e. \<not> in_score_range 0 (cutoff_time now days) e) (zsets r TIMELINE_ZSET)"
proof (cases "zrangebyscore r TIMELINE_ZSET 0 (cutoff_time now days) = []")
  case True
  then have "\<forall>e \<in> set (zsets r TIMELINE_ZSET). \<not> in_score_range 0 (cutoff_time now days) e"
    by (simp add: zrangebyscore_empty_iff)
  then have "filter (\<lambda>e. \<not> in_score_range 0 (cutoff_time now days) e) (zsets r TIMELINE_ZSET)
               = zsets r TIMELINE_ZSET"
    by (simp add: filter_id_conv)
  with True show ?thesis
    by (simp add: cleanup_old_news_def Let_def)
next
  case False
  then show ?thesis
    by (simp add: cleanup_old_news_def Let_def fold_clean_category_other zremrangebyscore_def
        fold_delete_record_keys_zsets)
qed

lemma cleanup_zsets_category:
  "zsets (snd (cleanup_old_news now r days)) (CATEGORY_PREFIX @ c) =
     (if zrangebyscore r TIMELINE_ZSET 0 (cutoff_time now days) \<noteq> []
         \<and> c \<in> set (smembers r CATEGORIES_SET)
      then filter (\<lambda>e. \<not> in_score_range 0 (cutoff_time now days) e) (zsets r (CATEGORY_PREFIX @ c))
      else zsets r (CATEGORY_PREFIX @ c))"
  by (simp add: cleanup_old_news_def Let_def fold_clean_category_zsets_category
      zremrangebyscore_def fold_delete_record_keys_zsets)

lemma cleanup_hashes:
  "hashes (snd (cleanup_old_news now r days)) (LIST_HASH_PREFIX @ i) =
     (if i \<in> set (zrangebyscore r TIMELINE_ZSET 0 (cutoff_time now days)) then []
      else hashes r (LIST_HASH_PREFIX @ i))"
  by (simp add: cleanup_old_news_def Let_def fold_clean_category_other zremrangebyscore_def
      fold_delete_record_keys_hashes)

lemma cleanup_strings:
  "strings (snd (cleanup_old_news now r days)) (DETAIL_PREFIX @ i) =
     (if i \<in> set (zrangebyscore r TIMELINE_ZSET 0 (cutoff_time now days)) then None
      else strings r (DETAIL_PREFIX @ i))"
  by (simp add: cleanup_old_news_def Let_def fold_clean_category_other zremrangebyscore_def
      fold_delete_record_keys_strings)

lemma cleanup_sets:
  "sets (snd (cleanup_old_news now r days)) CATEGORIES_SET = sets r CATEGORIES_SET"
  by (simp add: cleanup_old_news_def Let_def fold_clean_category_other zremrangebyscore_def
      fold_delete_record_keys_sets)

section \<open>\<^verbatim>\<open>int(str(n))\<close> is \<open>n\<close>\<close>

lemma digit_val_digit_char: "d < 10 \<Longrightarrow> digit_val (digit_char d) = Some d"
  by (simp add: digit_val_def digit_char_def)

lemma digit_char_plain:
  assumes "d < 10"
  shows "\<not> is_space (digit_char d)" "digit_char d \<noteq> CHR ''-''" "digit_char d \<noteq> CHR ''+''"
proof -
  have code: "of_char (digit_char d) = 48 + d"
    using assms by (simp add: digit_char_def)
  show "\<not> is_space (digit_char d)"
    using assms by (simp add: is_space_def code)
  have "(of_char (digit_char d) :: nat) \<noteq> of_char (CHR ''-'')"
    unfolding code by simp
  then show "digit_char d \<noteq> CHR ''-''"
    by metis
  have "(of_char (digit_char d) :: nat) \<noteq> of_char (CHR ''+'')"
    unfolding code by simp
  then show "digit_char d \<noteq> CHR ''+''"
    by metis
qed

lemma parse_digits_snoc:
  "parse_digits acc b xs = Some v \<Longrightarrow> digit_val c = Some d
     \<Longrightarrow> parse_digits acc b (xs @ [c]) = Some (v * 10 + d)"
proof (induction xs arbitrary: acc b)
  case Nil
  then show ?case by (simp split: if_splits)
next
  case (Cons x xs)
  then show ?case by (auto split: option.splits if_splits)
qed

lemma parse_digits_digits_of: "parse_digits 0 False (digits_of n) = Some n"
proof (induction n rule: digits_of.induct)
  case (1 n)
  show ?case
  proof (cases "n < 10")
    case True
    then show ?thesis
      by (subst digits_of.simps) (simp add: digit_val_digit_char)
  next
    case False
    then have "parse_digits 0 False (digits_of (n div 10)) = Some (n div 10)"
      using "1.IH" by simp
    moreover have "digit_val (digit_char (n mod 10)) = Some (n mod 10)"
      by (simp add: digit_val_digit_char)
    ultimately have "parse_digits 0 False (digits_of (n div 10) @ [digit_char (n mod 10)])
        = Some (n div 10 * 10 + n mod 10)"
      by (rule parse_digits_snoc)
    with False show ?thesis
      by (subst digits_of.simps) simp
  qed
qed

lemma digits_of_chars: "c \<in> set (digits_of n) \<Longrightarrow> \<exists>d < 10. c = digit_char d"
proof (induction n rule: digits_of.induct)
  case (1 n)
  have last_digit: "\<exists>d < 10. digit_char (n mod 10) = digit_char d"
    by (intro exI [of _ "n mod 10"]) simp
  from "1.prems" have "c \<in> set (if n < 10 then [digit_char n]
      else digits_of (n div 10) @ [digit_char (n mod 10)])"
    by (subst (asm) digits_of.simps)
  with "1.IH" last_digit show ?case
    by (auto split: if_splits)
qed

lemma digits_of_plain:
  assumes "c \<in> set (digits_of n)"
  shows "\<not> is_space c" "c \<noteq> CHR ''-''" "c \<noteq> CHR ''+''"
proof -
  obtain d where "d < 10" "c = digit_char d"
    using digits_of_chars [OF assms] by blast
  then show "\<not> is_space c" "c \<noteq> CHR ''-''" "c \<noteq> CHR ''+''"
    by (simp_all add: digit_char_plain)
qed

lemma digits_of_nonempty: "digits_of n \<noteq> []"
  by (subst digits_of.simps) simp

lemma strip_no_space:
  assumes "s \<noteq> []" "\<not> is_space (hd s)" "\<not> is_space (last s)"
  shows "strip s = s"
proof -
  have "dropWhile is_space s = s"
    using assms by (cases s) simp_all
  moreover have "dropWhile is_space (rev s) = rev s"
    using assms by (cases "rev s") (simp_all add: hd_rev)
  ultimately show ?thesis
    by (simp add: strip_def)
qed

lemma strip_py_str: "strip (py_str i) = py_str i"
proof (rule strip_no_space)
  show "py_str i \<noteq> []"
    by (simp add: py_str_def digits_of_nonempty)
  show "\<not> is_space (hd (py_str i))"
  proof (cases "i < 0")
    case True
    then show ?thesis by (simp add: py_str_def is_space_def)
  next
    case False
    have "hd (digits_of (nat i)) \<in> set (digits_of (nat i))"
      by (simp add: digits_of_nonempty)
    then show ?thesis
      using False by (simp add: py_str_def digits_of_plain(1))
  qed
  have "last (digits_of n) \<in> set (digits_of n)" for n
    by (simp add: digits_of_nonempty)
  then have "\<not> is_space (last (digits_of n))" for n
    by (rule digits_of_plain(1))
  then show "\<not> is_space (last (py_str i))"
    by (simp add: py_str_def digits_of_nonempty)
qed

lemma py_int_py_str: "py_int (py_str i) = Inr i"
proof (cases "i < 0")
  case True
  then show ?thesis
    by (simp add: py_int_def strip_py_str) (simp add: py_str_def parse_digits_digits_of)
next
  case False
  obtain c cs where s: "digits_of (nat i) = c # cs"
    using digits_of_nonempty by (cases "digits_of (nat i)") auto
  then have "c \<in> set (digits_of (nat i))" by simp
  then have c: "c \<noteq> CHR ''-''" "c \<noteq> CHR ''+''"
    by (simp_all add: digits_of_plain)
  have "parse_digits 0 False (c # cs) = Some (nat i)"
    using parse_digits_digits_of [of "nat i"] s by simp
  then show ?thesis
    using False s c by (simp add: py_int_def strip_py_str) (simp add: py_str_def)
qed

section \<open>Sorted sets and page windows\<close>

lemma zsorted_mset: "mset (zsorted z) = mset z"
  by (simp add: zsorted_def)

lemma zsorted_length: "length (zsorted z) = length z"
  by (simp add: zsorted_def)

lemma zkey_le_scores: "zkey a \<le> zkey b \<Longrightarrow> snd a \<le> snd b"
  by (auto simp: zkey_def less_eq_prod_def)

lemma zsorted_ascending: "sorted_wrt (\<lambda>a b. snd a \<le> snd b) (zsorted z)"
proof -
  have "sorted (map zkey (zsorted z))"
    by (simp add: zsorted_def)
  then have "sorted_wrt (\<lambda>a b. zkey a \<le> zkey b) (zsorted z)"
    by (simp add: sorted_map)
  then show ?thesis
    by (rule sorted_wrt_mono_rel [rotated]) (simp add: zkey_le_scores)
qed

lemma zsorted_descending: "sorted_wrt (\<lambda>a b. snd b \<le> snd a) (rev (zsorted z))"
  using zsorted_ascending by (simp add: sorted_wrt_rev)

lemma zrevrange_entries_empty: "zrevrange_entries [] start stop = []"
  by (simp add: zrevrange_entries_def Let_def)

lemma zrevrange_entries_window:
  assumes "0 \<le> start" "start \<le> stop"
  shows "zrevrange_entries z start stop =
           take (nat (stop - start + 1)) (drop (nat start) (rev (zsorted z)))"
proof (cases "start \<ge> int (length z)")
  case True
  then have "drop (nat start) (rev (zsorted z)) = []"
    by (simp add: zsorted_length)
  with True assms show ?thesis
    by (simp add: zrevrange_entries_def Let_def)
next
  case False
  show ?thesis
  proof (cases "stop \<ge> int (length z)")
    case True
    have "length (drop (nat start) (rev (zsorted z))) \<le> nat (int (length z) - 1 - start + 1)"
      by (simp add: zsorted_length)
    moreover have "length (drop (nat start) (rev (zsorted z))) \<le> nat (stop - start + 1)"
      using True by (simp add: zsorted_length)
    ultimately show ?thesis
      using False True assms by (simp add: zrevrange_entries_def Let_def)
  next
    case stop: False
    with False assms show ?thesis
      by (simp add: zrevrange_entries_def Let_def)
  qed
qed

lemma zrevrange_entries_bound:
  assumes "zrevrange_entries z start stop \<noteq> []"
  shows "start + int (length (zrevrange_entries z start stop)) \<le> int (length z)"
  using assms
  by (auto simp: zrevrange_entries_def Let_def zsorted_length split: if_splits)

lemma page_window_eq:
  assumes "1 \<le> pg" "1 \<le> pg_size"
  shows "page_window r category pg pg_size =
           take (nat pg_size)
             (drop (nat ((pg - 1) * pg_size)) (rev (zsorted (zsets r (zset_key_of category)))))"
proof -
  have "0 \<le> (pg - 1) * pg_size"
    using assms by simp
  moreover have "(pg - 1) * pg_size \<le> (pg - 1) * pg_size + pg_size - 1"
    using assms by simp
  ultimately show ?thesis
    unfolding page_window_def by (simp add: zrevrange_entries_window)
qed

lemma take_drop_length:
  assumes "0 \<le> s" "1 \<le> sz"
  shows "int (length (take (nat sz) (drop (nat s) xs))) = min sz (max 0 (int (length xs) - s))"
  using assms by (simp add: min_def max_def) linarith

lemma page_window_length:
  assumes "1 \<le> pg" "1 \<le> pg_size"
  shows "int (length (page_window r category pg pg_size)) =
           page_item_count (int (length (zsets r (zset_key_of category)))) pg pg_size"
proof -
  have "0 \<le> (pg - 1) * pg_size"
    using assms by simp
  then show ?thesis
    unfolding page_window_eq [OF assms] page_item_count_def
    using take_drop_length [OF _ assms(2), of "(pg - 1) * pg_size" "rev (zsorted (zsets r (zset_key_of category)))"]
    by (simp add: zsorted_length)
qed

lemma page_window_descending:
  assumes "1 \<le> pg" "1 \<le> pg_size"
  shows "sorted_wrt (\<lambda>a b. snd b \<le> snd a) (page_window r category pg pg_size)"
  unfolding page_window_eq [OF assms]
  by (intro sorted_wrt_take sorted_wrt_drop zsorted_descending)

lemma page_window_bound:
  assumes "page_window r category pg pg_size \<noteq> []"
  shows "(pg - 1) * pg_size + int (length (page_window r category pg pg_size))
           \<le> int (zcard r (zset_key_of category))"
  using zrevrange_entries_bound assms unfolding page_window_def zcard_def by blast

lemma zscore_zadd_members: "map_of (zadd_members z m sc) m = Some sc"
  by (simp add: zadd_members_def)

lemma zadd_members_single:
  "filter (\<lambda>e. fst e = m) (zadd_members z m sc) = [(m, sc)]"
  by (simp add: zadd_members_def filter_empty_conv)

section \<open>The list query\<close>

lemma item_of_ok:
  assumes "publish_time_ok h"
  shows "\<exists>it. item_of i h = Inr it \<and> item_id it = Some (StrV i)"
proof (cases "map_of h ''publish_time''")
  case None
  then show ?thesis
    by (simp add: item_of_def item_id_def update_conv')
next
  case (Some v)
  with assms obtain n where "py_int v = Inr n"
    by (auto simp: publish_time_ok_def split: sum.splits)
  with Some show ?thesis
    by (simp add: item_of_def item_id_def update_conv')
qed

lemma collect_items_ok:
  assumes "\<forall>p \<in> set ps. publish_time_ok (snd p)"
  shows "\<exists>its. collect_items ps = Inr its
           \<and> map item_id its = map (\<lambda>p. Some (StrV (fst p))) (filter (\<lambda>p. snd p \<noteq> []) ps)"
  using assms
proof (induction ps)
  case Nil
  then show ?case by simp
next
  case (Cons p ps)
  obtain i h where p: "p = (i, h)" by (cases p)
  from Cons obtain its where its: "collect_items ps = Inr its"
    "map item_id its = map (\<lambda>p. Some (StrV (fst p))) (filter (\<lambda>p. snd p \<noteq> []) ps)"
    by auto
  show ?case
  proof (cases "h = []")
    case True
    with p its show ?thesis by simp
  next
    case False
    from Cons.prems p have "publish_time_ok h" by simp
    then obtain it where "item_of i h = Inr it" "item_id it = Some (StrV i)"
      using item_of_ok by blast
    with False p its show ?thesis by simp
  qed
qed

lemma collect_items_length:
  "collect_items ps = Inr its \<Longrightarrow> length its = length (filter (\<lambda>p. snd p \<noteq> []) ps)"
proof (induction ps arbitrary: its)
  case Nil
  then show ?case by simp
next
  case (Cons p ps)
  obtain i h where p: "p = (i, h)" by (cases p)
  with Cons show ?case
    by (auto split: if_splits sum.splits)
qed

text \<open>
  The exits of \<open>get_news_list\<close> in one equation: a range error on a timeline that is not
  empty, and otherwise the result built from the page window.
\<close>

lemma get_news_list_unfold:
  "get_news_list r category pg pg_size =
     (if zsets r (zset_key_of category) \<noteq> [] \<and> \<not> ranks_ok pg pg_size then Inl ResponseError
      else
        (let ids = map fst (page_window r category pg pg_size)
         in case collect_items (zip ids (map (\<lambda>i. hgetall r (LIST_HASH_PREFIX @ i)) ids)) of
              Inl e \<Rightarrow> Inl e
            | Inr its \<Rightarrow>
                Inr \<lparr>items = its, total = zcard r (zset_key_of category), page = pg,
                     page_size = pg_size,
                     has_next = (ids \<noteq> [] \<and> (pg - 1) * pg_size + int (length its)
                                   < int (zcard r (zset_key_of category)))\<rparr>))"
proof (cases "zsets r (zset_key_of category) = []")
  case True
  then show ?thesis
    by (simp add: get_news_list_def page_window_def zcard_def zrevrange_entries_empty)
next
  case False
  show ?thesis
  proof (cases "ranks_ok pg pg_size")
    case ok: True
    with False show ?thesis
      by (cases "page_window r category pg pg_size = []")
        (simp_all add: get_news_list_def page_window_def zcard_def zrevrange_def Let_def
          ranks_ok_def split: sum.splits)
  next
    case bad: False
    with False show ?thesis
      by (auto simp: get_news_list_def zcard_def zrevrange_def Let_def ranks_ok_def)
  qed
qed

lemma get_news_list_range_error:
  assumes "zcard r (zset_key_of category) \<noteq> 0" "\<not> ranks_ok pg pg_size"
  shows "get_news_list r category pg pg_size = Inl ResponseError"
  using assms by (simp add: get_news_list_unfold zcard_def)

lemma get_news_list_empty_timeline:
  assumes "zcard r (zset_key_of category) = 0"
  shows "get_news_list r category pg pg_size =
    Inr \<lparr>items = [], total = 0, page = pg, page_size = pg_size, has_next = False\<rparr>"
  using assms by (simp add: get_news_list_def)

lemma get_news_list_returns:
  assumes "get_news_list r category pg pg_size = Inr res"
  shows "(let ids = map fst (page_window r category pg pg_size)
          in case collect_items (zip ids (map (\<lambda>i. hgetall r (LIST_HASH_PREFIX @ i)) ids)) of
               Inl e \<Rightarrow> Inl e
             | Inr its \<Rightarrow>
                 Inr \<lparr>items = its, total = zcard r (zset_key_of category), page = pg,
                      page_size = pg_size,
                      has_next = (ids \<noteq> [] \<and> (pg - 1) * pg_size + int (length its)
                                    < int (zcard r (zset_key_of category)))\<rparr>) = Inr res"
  using assms unfolding get_news_list_unfold by (simp split: if_splits)

lemma filter_zip_map:
  "filter (\<lambda>p. snd p \<noteq> []) (zip ids (map f ids)) = map (\<lambda>i. (i, f i)) (filter (\<lambda>i. f i \<noteq> []) ids)"
  by (induction ids) simp_all

lemma get_news_list_result:
  assumes "projections_ok r" "ranks_ok pg pg_size"
  shows "\<exists>res. get_news_list r category pg pg_size = Inr res
     \<and> total res = zcard r (zset_key_of category)
     \<and> page res = pg \<and> page_size res = pg_size
     \<and> map item_id (items res) =
         map (\<lambda>i. Some (StrV i))
           (filter (\<lambda>i. hgetall r (LIST_HASH_PREFIX @ i) \<noteq> [])
              (map fst (page_window r category pg pg_size)))
     \<and> has_next res = (page_window r category pg pg_size \<noteq> []
          \<and> (pg - 1) * pg_size + int (length (items res)) < int (total res))"
proof -
  define ids where "ids = map fst (page_window r category pg pg_size)"
  define ps where "ps = zip ids (map (\<lambda>i. hgetall r (LIST_HASH_PREFIX @ i)) ids)"
  have "\<forall>p \<in> set ps. publish_time_ok (snd p)"
    using assms(1) by (auto simp: ps_def projections_ok_def hgetall_def set_zip)
  then obtain its where its: "collect_items ps = Inr its"
    "map item_id its = map (\<lambda>p. Some (StrV (fst p))) (filter (\<lambda>p. snd p \<noteq> []) ps)"
    using collect_items_ok by blast
  have "map item_id its = map (\<lambda>i. Some (StrV i))
          (filter (\<lambda>i. hgetall r (LIST_HASH_PREFIX @ i) \<noteq> []) ids)"
    using its(2) by (simp add: ps_def filter_zip_map comp_def)
  with its(1) assms(2) show ?thesis
    by (simp add: get_news_list_unfold ids_def [symmetric] ps_def [symmetric])
      (simp add: ids_def)
qed

lemma get_news_list_items_length:
  assumes "get_news_list r category pg pg_size = Inr res"
  shows "length (items res) =
           length (filter (\<lambda>i. hgetall r (LIST_HASH_PREFIX @ i) \<noteq> [])
              (map fst (page_window r category pg pg_size)))"
proof -
  define ids where "ids = map fst (page_window r category pg pg_size)"
  define ps where "ps = zip ids (map (\<lambda>i. hgetall r (LIST_HASH_PREFIX @ i)) ids)"
  from get_news_list_returns [OF assms]
  obtain its where its: "collect_items ps = Inr its" "items res = its"
    by (auto simp: ids_def [symmetric] ps_def [symmetric] split: sum.splits)
  have "length its = length (filter (\<lambda>p. snd p \<noteq> []) ps)"
    using its(1) by (rule collect_items_length)
  then have "length its = length (filter (\<lambda>i. hgetall r (LIST_HASH_PREFIX @ i) \<noteq> []) ids)"
    by (simp add: ps_def filter_zip_map)
  then show ?thesis
    using its(2) by (simp add: ids_def)
qed

lemma get_news_list_fields:
  assumes "get_news_list r category pg pg_size = Inr res"
  shows "total res = zcard r (zset_key_of category)"
    and "has_next res = (page_window r category pg pg_size \<noteq> []
          \<and> (pg - 1) * pg_size + int (length (items res)) < int (total res))"
  using get_news_list_returns [OF assms] by (auto simp: Let_def split: sum.splits)

lemma items_le_window:
  assumes "get_news_list r category pg pg_size = Inr res"
  shows "length (items res) \<le> length (page_window r category pg pg_size)"
proof -
  have "length (items res) =
      length (filter (\<lambda>i. hgetall r (LIST_HASH_PREFIX @ i) \<noteq> [])
        (map fst (page_window r category pg pg_size)))"
    using assms by (rule get_news_list_items_length)
  also have "\<dots> \<le> length (map fst (page_window r category pg pg_size))"
    by (rule length_filter_le)
  finally show ?thesis by simp
qed

lemma dropped_item_has_next:
  assumes "get_news_list r category pg pg_size = Inr res"
    and "length (items res) < length (page_window r category pg pg_size)"
  shows "has_next res"
proof -
  let ?w = "page_window r category pg pg_size"
  have ne: "?w \<noteq> []"
    using assms(2) by auto
  have "(pg - 1) * pg_size + int (length ?w) \<le> int (total res)"
    using page_window_bound [OF ne] get_news_list_fields(1) [OF assms(1)] by simp
  then have "(pg - 1) * pg_size + int (length (items res)) < int (total res)"
    using assms(2) by linarith
  then show ?thesis
    using ne get_news_list_fields(2) [OF assms(1)] by simp
qed

lemma more_data_has_next:
  assumes "get_news_list r category pg pg_size = Inr res"
    and "1 \<le> pg" "1 \<le> pg_size" "pg * pg_size < int (total res)"
  shows "has_next res"
proof -
  let ?w = "page_window r category pg pg_size"
  let ?s = "(pg - 1) * pg_size"
  have tot: "total res = zcard r (zset_key_of category)"
    using assms(1) by (rule get_news_list_fields(1))
  have s: "?s + pg_size = pg * pg_size"
    by (simp add: algebra_simps)
  have s0: "0 \<le> ?s"
    using assms(2,3) by simp
  have "int (length ?w) = page_item_count (int (zcard r (zset_key_of category))) pg pg_size"
    using page_window_length [OF assms(2,3)] by (simp add: zcard_def)
  then have len: "int (length ?w) = pg_size"
    using assms(3,4) s tot unfolding page_item_count_def by linarith
  then have ne: "?w \<noteq> []"
    using assms(3) by auto
  have "int (length (items res)) \<le> pg_size"
    using items_le_window [OF assms(1)] len by linarith
  then have "?s + int (length (items res)) < int (total res)"
    using s assms(4) by linarith
  then show ?thesis
    using ne get_news_list_fields(2) [OF assms(1)] by simp
qed

section \<open>Stores reached from the empty store\<close>

text \<open>
  Every projection \<open>save_news\<close> writes has a \<^verbatim>\<open>publish_time\<close> that \<^verbatim>\<open>int()\<close> reads
  back, so every store reached through the three mutating methods is readable by
  \<open>get_news_list\<close>.
\<close>

lemma saved_projection_publish_time:
  "map_of (fold (\<lambda>(f, v). AList.update f v) (list_fields_of d c score) h) ''publish_time''
     = Some (py_str score)"
  by (simp add: list_fields_of_def update_conv')

lemma saved_projection_nonempty:
  "fold (\<lambda>(f, v). AList.update f v) (list_fields_of d c score) h \<noteq> []"
  by (simp add: list_fields_of_def)

lemma saved_projection_title:
  "map_of (fold (\<lambda>(f, v). AList.update f v) (list_fields_of d c score) h) ''title''
     = Some (dict_get d ''title'' '''')"
  by (simp add: list_fields_of_def update_conv')

lemma publish_time_ok_saved:
  "publish_time_ok (fold (\<lambda>(f, v). AList.update f v) (list_fields_of d c score) h)"
  by (simp add: publish_time_ok_def saved_projection_publish_time py_int_py_str)

lemma publish_time_ok_Nil: "publish_time_ok []"
  by (simp add: publish_time_ok_def)

lemma projections_ok_empty: "projections_ok empty_redis"
  by (simp add: projections_ok_def empty_redis_def publish_time_ok_Nil)

lemma projections_ok_save:
  "projections_ok r \<Longrightarrow> projections_ok (snd (save_news dumps now r i d c pt))"
  by (simp add: projections_ok_def save_news_hashes publish_time_ok_saved)

lemma projections_ok_delete:
  "projections_ok r \<Longrightarrow> projections_ok (snd (delete_news r i c))"
  by (simp add: projections_ok_def delete_news_hashes publish_time_ok_Nil)

lemma projections_ok_cleanup:
  "projections_ok r \<Longrightarrow> projections_ok (snd (cleanup_old_news now r days))"
  by (simp add: projections_ok_def cleanup_hashes publish_time_ok_Nil)

lemma projections_ok_apply:
  "projections_ok r \<Longrightarrow> projections_ok (apply_operation dumps op r)"
  by (cases op) (simp_all add: projections_ok_save projections_ok_delete projections_ok_cleanup)

lemma projections_ok_fold:
  "projections_ok r \<Longrightarrow> projections_ok (fold (apply_operation dumps) ops r)"
  by (induction ops arbitrary: r) (simp_all add: projections_ok_apply)

lemma projections_ok_run: "projections_ok (run dumps ops)"
  by (simp add: run_def projections_ok_fold projections_ok_empty)

lemma never_saved_apply:
  "\<not> saves i op \<Longrightarrow> strings r (DETAIL_PREFIX @ i) = None
     \<Longrightarrow> strings (apply_operation dumps op r) (DETAIL_PREFIX @ i) = None"
  by (cases op) (simp_all add: save_news_strings delete_news_strings cleanup_strings)

lemma never_saved_fold:
  "\<forall>op \<in> set ops. \<not> saves i op \<Longrightarrow> strings r (DETAIL_PREFIX @ i) = None
     \<Longrightarrow> strings (fold (apply_operation dumps) ops r) (DETAIL_PREFIX @ i) = None"
  by (induction ops arbitrary: r) (simp_all add: never_saved_apply)

lemma never_saved_run:
  "\<forall>op \<in> set ops. \<not> saves i op \<Longrightarrow> strings (run dumps ops) (DETAIL_PREFIX @ i) = None"
  by (simp add: run_def never_saved_fold empty_redis_def)

subsection \<open>Sorted sets keep their members distinct\<close>

lemma distinct_zadd_members:
  "distinct (map fst z) \<Longrightarrow> distinct (map fst (zadd_members z m sc))"
  by (auto simp: zadd_members_def distinct_map_filter)

lemma members_distinct_empty: "members_distinct empty_redis"
  by (simp add: members_distinct_def empty_redis_def)

lemma members_distinct_save:
  "members_distinct r \<Longrightarrow> members_distinct (snd (save_news dumps now r i d c pt))"
  by (simp add: members_distinct_def save_news_def Let_def cmd_defs distinct_zadd_members)

lemma members_distinct_delete:
  "members_distinct r \<Longrightarrow> members_distinct (snd (delete_news r i c))"
  by (simp add: members_distinct_def delete_news_def Let_def cmd_defs distinct_map_filter)

lemma members_distinct_fold_delete:
  "members_distinct r \<Longrightarrow> members_distinct (fold delete_record_keys ids r)"
  by (induction ids arbitrary: r)
    (simp_all add: members_distinct_def delete_record_keys_def del_def)

lemma members_distinct_fold_clean:
  "members_distinct r \<Longrightarrow> members_distinct (fold (clean_category cutoff) cs r)"
  by (induction cs arbitrary: r)
    (simp_all add: members_distinct_def clean_category_def zremrangebyscore_def
      distinct_map_filter)

lemma members_distinct_cleanup:
  "members_distinct r \<Longrightarrow> members_distinct (snd (cleanup_old_news now r days))"
proof -
  assume r: "members_distinct r"
  have "members_distinct (zremrangebyscore r' key lo hi)" if "members_distinct r'" for r' key lo hi
    using that by (simp add: members_distinct_def zremrangebyscore_def distinct_map_filter)
  then show ?thesis
    using r
    by (simp add: cleanup_old_news_def Let_def members_distinct_fold_delete
        members_distinct_fold_clean)
qed

lemma members_distinct_run: "members_distinct (run dumps ops)"
proof -
  have "members_distinct (fold (apply_operation dumps) ops r)" if "members_distinct r" for r
    using that
  proof (induction ops arbitrary: r)
    case Nil
    then show ?case by simp
  next
    case (Cons op ops)
    have "members_distinct (apply_operation dumps op r)"
      using Cons.prems
      by (cases op) (simp_all add: members_distinct_save members_distinct_delete
          members_distinct_cleanup)
    then show ?case
      using Cons.IH by simp
  qed
  then show ?thesis
    by (simp add: run_def members_distinct_empty)
qed

lemma zcard_is_cardinality:
  "members_distinct r \<Longrightarrow> zcard r key = card (fst ` set (zsets r key))"
proof -
  assume "members_distinct r"
  then have "distinct (map fst (zsets r key))"
    by (simp add: members_distinct_def)
  then have "card (set (map fst (zsets r key))) = length (map fst (zsets r key))"
    by (rule distinct_card)
  then show ?thesis
    by (simp add: zcard_def)
qed

subsection \<open>What a successful \<open>save_news\<close> and \<open>delete_news\<close> leave behind\<close>

text \<open>
  With a score Redis holds exactly, \<open>save_news\<close> returns \<^verbatim>\<open>True\<close> and leaves the
  projection, the detail, both timeline entries and the registry entry in the store.
\<close>

lemma save_news_writes_all:
  "exact_score (save_score pt now) \<Longrightarrow>
   fst (save_news dumps now r news_id d category pt) = True
   \<and> hgetall (snd (save_news dumps now r news_id d category pt)) (LIST_HASH_PREFIX @ news_id) \<noteq> []
   \<and> get (snd (save_news dumps now r news_id d category pt)) (DETAIL_PREFIX @ news_id) = Some (dumps d)
   \<and> zscore (snd (save_news dumps now r news_id d category pt)) TIMELINE_ZSET news_id
       = Some (save_score pt now)
   \<and> zscore (snd (save_news dumps now r news_id d category pt)) (CATEGORY_PREFIX @ category) news_id
       = Some (save_score pt now)
   \<and> category \<in> set (get_categories (snd (save_news dumps now r news_id d category pt)))"
  by (simp add: zscore_def hgetall_def get_def get_categories_def smembers_def
        save_news_zsets_timeline save_news_zsets_category save_news_sets
        save_news_hashes save_news_strings zscore_zadd_members saved_projection_nonempty)
    (simp add: save_news_def Let_def)

lemma delete_news_removes:
  "fst (delete_news r news_id category) = True
   \<and> hgetall (snd (delete_news r news_id category)) (LIST_HASH_PREFIX @ news_id) = []
   \<and> get (snd (delete_news r news_id category)) (DETAIL_PREFIX @ news_id) = None
   \<and> zscore (snd (delete_news r news_id category)) TIMELINE_ZSET news_id = None"
proof -
  have "zscore (snd (delete_news r news_id category)) TIMELINE_ZSET news_id = None"
    by (auto simp: zscore_def delete_news_zsets_timeline map_of_eq_None_iff)
  then show ?thesis
    by (simp add: hgetall_def get_def delete_news_hashes delete_news_strings)
      (simp add: delete_news_def Let_def)
qed

subsection \<open>The scenario store\<close>

lemma two_saves_timeline:
  "zsets (two_saves dumps now1 now2) TIMELINE_ZSET = [(''a2'', 2000), (''a1'', 1000)]"
  by (simp add: two_saves_def save_news_zsets_timeline zadd_members_def save_score_def
      empty_redis_def)

lemma two_saves_category:
  "zsets (two_saves dumps now1 now2) (CATEGORY_PREFIX @ ''tech'') = [(''a2'', 2000), (''a1'', 1000)]"
  by (simp add: two_saves_def save_news_zsets_category zadd_members_def save_score_def
      empty_redis_def)

lemma two_saves_categories: "get_categories (two_saves dumps now1 now2) = [''tech'']"
  by (simp add: two_saves_def get_categories_def smembers_def save_news_sets empty_redis_def)

subsection \<open>Exact scores and 64-bit ranks\<close>

lemma ranks_ok_valid_page:
  assumes "1 \<le> pg" "1 \<le> pg_size"
  shows "ranks_ok pg pg_size \<longleftrightarrow> pg * pg_size \<le> 2 ^ 63"
proof -
  define s where "s = (pg - 1) * pg_size"
  have s0: "0 \<le> s"
    using assms by (simp add: s_def)
  have prod: "pg * pg_size = s + pg_size"
    by (simp add: s_def algebra_simps)
  show ?thesis
    using s0 assms(2) unfolding ranks_ok_def int64_ok_def s_def [symmetric] prod
    by auto
qed

lemma set_zadd_members: "set (zadd_members z m sc) \<subseteq> insert (m, sc) (set z)"
  by (auto simp: zadd_members_def)

lemma scores_exact_empty: "scores_exact empty_redis"
  by (simp add: scores_exact_def empty_redis_def)

lemma scores_exact_save:
  assumes "scores_exact r" "exact_score (save_score pt now)"
  shows "scores_exact (snd (save_news dumps now r i d c pt))"
proof -
  have "exact_score (snd e)"
    if "e \<in> set (zsets (snd (save_news dumps now r i d c pt)) key)" for e key
  proof -
    from that have "e = (i, save_score pt now) \<or> e \<in> set (zsets r key)"
      using set_zadd_members [of "zsets r key" i "save_score pt now"]
      by (auto simp: save_news_def Let_def cmd_defs split: if_splits)
    then show ?thesis
      using assms by (auto simp: scores_exact_def)
  qed
  then show ?thesis
    by (simp add: scores_exact_def)
qed

lemma scores_exact_two_saves: "scores_exact (two_saves dumps now1 now2)"
  unfolding two_saves_def
  by (intro scores_exact_save scores_exact_empty) (simp_all add: save_score_def exact_score_def)

section \<open>Properties of the specification\<close>

subsection \<open>C1: pagination\<close>

lemma list_page_in_range:
  assumes "1 \<le> pg" "1 \<le> pg_size" "projections_ok r" "ranks_ok pg pg_size"
  shows "\<exists>res. get_news_list r category pg pg_size = Inr res
     \<and> total res = zcard r (zset_key_of category)
     \<and> page_window r category pg pg_size =
         take (nat pg_size)
           (drop (nat ((pg - 1) * pg_size)) (rev (zsorted (zsets r (zset_key_of category)))))
     \<and> mset (rev (zsorted (zsets r (zset_key_of category)))) = mset (zsets r (zset_key_of category))
     \<and> sorted_wrt (\<lambda>a b. snd b \<le> snd a) (rev (zsorted (zsets r (zset_key_of category))))
     \<and> int (length (page_window r category pg pg_size)) =
         page_item_count (int (zcard r (zset_key_of category))) pg pg_size
     \<and> map item_id (items res) =
         map (\<lambda>i. Some (StrV i))
           (filter (\<lambda>i. hgetall r (LIST_HASH_PREFIX @ i) \<noteq> [])
              (map fst (page_window r category pg pg_size)))
     \<and> ((\<forall>i \<in> set (map fst (page_window r category pg pg_size)).
            hgetall r (LIST_HASH_PREFIX @ i) \<noteq> [])
          \<longrightarrow> int (length (items res)) =
                page_item_count (int (zcard r (zset_key_of category))) pg pg_size)
     \<and> (int (zcard r (zset_key_of category)) \<le> (pg - 1) * pg_size \<longrightarrow> items res = [])"
proof -
  let ?w = "page_window r category pg pg_size"
  let ?N = "int (zcard r (zset_key_of category))"
  obtain res where res: "get_news_list r category pg pg_size = Inr res"
    "total res = zcard r (zset_key_of category)"
    "map item_id (items res) =
       map (\<lambda>i. Some (StrV i)) (filter (\<lambda>i. hgetall r (LIST_HASH_PREFIX @ i) \<noteq> []) (map fst ?w))"
    using get_news_list_result [OF assms(3,4)] by blast
  have len: "int (length ?w) = page_item_count ?N pg pg_size"
    using page_window_length [OF assms(1,2)] by (simp add: zcard_def)
  have items_len: "length (items res) =
      length (filter (\<lambda>i. hgetall r (LIST_HASH_PREFIX @ i) \<noteq> []) (map fst ?w))"
    using res(1) by (rule get_news_list_items_length)
  have full: "int (length (items res)) = page_item_count ?N pg pg_size"
    if "\<forall>i \<in> set (map fst ?w). hgetall r (LIST_HASH_PREFIX @ i) \<noteq> []"
  proof -
    have "filter (\<lambda>i. hgetall r (LIST_HASH_PREFIX @ i) \<noteq> []) (map fst ?w) = map fst ?w"
      using that by (simp only: filter_id_conv)
    then show ?thesis
      using items_len len by simp
  qed
  have beyond: "items res = []" if "?N \<le> (pg - 1) * pg_size"
  proof -
    have "page_item_count ?N pg pg_size = 0"
      using that assms(2) by (simp add: page_item_count_def)
    then have "?w = []"
      using len by simp
    then show ?thesis
      using items_len by simp
  qed
  show ?thesis
    using res len full beyond page_window_eq [OF assms(1,2)] zsorted_descending
    by (intro exI [of _ res] conjI impI) (simp_all add: zsorted_mset)
qed

text \<open>
  C1, as the code has it. Take \<open>page \<ge> 1\<close>, \<open>pageSize \<ge> 1\<close> and a store whose projections are
  readable. The two rank indices are signed 64-bit integers exactly when
  \<open>page * pageSize \<le> 2^63\<close>. Then \<open>get_news_list\<close> returns a result, not an error;
  \<open>total\<close> is the cardinality \<open>N\<close> of the selected timeline (the global one for a null or
  empty category name, else the category's); the id window is ranks \<open>(page-1)*pageSize\<close>
  to \<open>page*pageSize - 1\<close> of the timeline in descending score order, which holds
  \<open>min(pageSize, max(0, N - (page-1)*pageSize))\<close> ids; the returned items are, in that
  order, the ids of the window that still have a projection, so their number is the
  window's when no projection is missing; a page beyond the data has no items. When
  an index is no signed 64-bit integer, the call raises if the timeline is not empty.
  On an empty timeline every call returns the empty result.
\<close>

theorem list_page_window:
  assumes "1 \<le> pg" "1 \<le> pg_size" "projections_ok r"
  shows "(ranks_ok pg pg_size \<longleftrightarrow> pg * pg_size \<le> 2 ^ 63)
   \<and> (ranks_ok pg pg_size \<longrightarrow>
       (\<exists>res. get_news_list r category pg pg_size = Inr res
          \<and> total res = zcard r (zset_key_of category)
          \<and> page_window r category pg pg_size =
              take (nat pg_size)
                (drop (nat ((pg - 1) * pg_size)) (rev (zsorted (zsets r (zset_key_of category)))))
          \<and> mset (rev (zsorted (zsets r (zset_key_of category))))
              = mset (zsets r (zset_key_of category))
          \<and> sorted_wrt (\<lambda>a b. snd b \<le> snd a) (rev (zsorted (zsets r (zset_key_of category))))
          \<and> int (length (page_window r category pg pg_size)) =
              page_item_count (int (zcard r (zset_key_of category))) pg pg_size
          \<and> map item_id (items res) =
              map (\<lambda>i. Some (StrV i))
                (filter (\<lambda>i. hgetall r (LIST_HASH_PREFIX @ i) \<noteq> [])
                   (map fst (page_window r category pg pg_size)))
          \<and> ((\<forall>i \<in> set (map fst (page_window r category pg pg_size)).
                 hgetall r (LIST_HASH_PREFIX @ i) \<noteq> [])
               \<longrightarrow> int (length (items res)) =
                     page_item_count (int (zcard r (zset_key_of category))) pg pg_size)
          \<and> (int (zcard r (zset_key_of category)) \<le> (pg - 1) * pg_size \<longrightarrow> items res = [])))
   \<and> (\<not> ranks_ok pg pg_size \<and> zcard r (zset_key_of category) \<noteq> 0 \<longrightarrow>
       (\<exists>e. get_news_list r category pg pg_size = Inl e))
   \<and> (zcard r (zset_key_of category) = 0 \<longrightarrow>
       get_news_list r category pg pg_size =
         Inr \<lparr>items = [], total = 0, page = pg, page_size = pg_size, has_next = False\<rparr>)"
proof (intro conjI impI)
  show "ranks_ok pg pg_size \<longleftrightarrow> pg * pg_size \<le> 2 ^ 63"
    using assms(1,2) by (rule ranks_ok_valid_page)
next
  assume "ranks_ok pg pg_size"
  with assms show "\<exists>res. get_news_list r category pg pg_size = Inr res
          \<and> total res = zcard r (zset_key_of category)
          \<and> page_window r category pg pg_size =
              take (nat pg_size)
                (drop (nat ((pg - 1) * pg_size)) (rev (zsorted (zsets r (zset_key_of category)))))
          \<and> mset (rev (zsorted (zsets r (zset_key_of category))))
              = mset (zsets r (zset_key_of category))
          \<and> sorted_wrt (\<lambda>a b. snd b \<le> snd a) (rev (zsorted (zsets r (zset_key_of category))))
          \<and> int (length (page_window r category pg pg_size)) =
              page_item_count (int (zcard r (zset_key_of category))) pg pg_size
          \<and> map item_id (items res) =
              map (\<lambda>i. Some (StrV i))
                (filter (\<lambda>i. hgetall r (LIST_HASH_PREFIX @ i) \<noteq> [])
                   (map fst (page_window r category pg pg_size)))
          \<and> ((\<forall>i \<in> set (map fst (page_window r category pg pg_size)).
                 hgetall r (LIST_HASH_PREFIX @ i) \<noteq> [])
               \<longrightarrow> int (length (items res)) =
                     page_item_count (int (zcard r (zset_key_of category))) pg pg_size)
          \<and> (int (zcard r (zset_key_of category)) \<le> (pg - 1) * pg_size \<longrightarrow> items res = [])"
    by (rule list_page_in_range)
next
  assume "\<not> ranks_ok pg pg_size \<and> zcard r (zset_key_of category) \<noteq> 0"
  then show "\<exists>e. get_news_list r category pg pg_size = Inl e"
    using get_news_list_range_error by blast
next
  assume "zcard r (zset_key_of category) = 0"
  then show "get_news_list r category pg pg_size =
         Inr \<lparr>items = [], total = 0, page = pg, page_size = pg_size, has_next = False\<rparr>"
    by (rule get_news_list_empty_timeline)
qed

text \<open>
  C1, witness: page 2 of size 1 of the scenario store holds exactly \<^verbatim>\<open>a1\<close>, the older of
  the two records.
\<close>

theorem list_page_window_witness:
  "(1::int) \<le> 2 \<and> (1::int) \<le> 1 \<and> projections_ok (two_saves demo_dumps 5 6)
   \<and> ranks_ok 2 1
   \<and> (\<exists>res. get_news_list (two_saves demo_dumps 5 6) (Some ''tech'') 2 1 = Inr res
        \<and> total res = 2
        \<and> map item_id (items res) = [Some (StrV ''a1'')]
        \<and> int (length (items res)) = page_item_count 2 2 1)"
proof -
  have ok: "projections_ok (two_saves demo_dumps 5 6)"
    unfolding two_saves_def by (intro projections_ok_save projections_ok_empty)
  have rk: "ranks_ok 2 1"
    by (simp add: ranks_ok_def int64_ok_def)
  have card: "zcard (two_saves demo_dumps 5 6) (zset_key_of (Some ''tech'')) = 2"
    by (simp add: zcard_def zset_key_of_def two_saves_category)
  have win: "page_window (two_saves demo_dumps 5 6) (Some ''tech'') 2 1 = [(''a1'', 1000)]"
    by code_simp
  have h: "hgetall (two_saves demo_dumps 5 6) (LIST_HASH_PREFIX @ ''a1'') \<noteq> []"
    by (simp add: hgetall_def two_saves_def save_news_hashes saved_projection_nonempty)
  show ?thesis
    using list_page_window [of 2 1 "two_saves demo_dumps 5 6" "Some ''tech''"] ok rk
    by (auto simp: card win h)
qed

text \<open>
  C1, counterexample to the item count as stated: after \<^verbatim>\<open>save_news("a1", ..., "tech")\<close>
  and \<^verbatim>\<open>delete_news("a1", "other")\<close> the timeline of \<^verbatim>\<open>tech\<close> still holds one id whose
  projection is gone. Page 1 of size 1 reports \<open>total = 1\<close> and returns no item, where
  the claim's count is 1.
\<close>

theorem orphan_page_short:
  "get_news_list orphan_store (Some ''tech'') 1 1 =
     Inr \<lparr>items = [], total = 1, page = 1, page_size = 1, has_next = True\<rparr>
   \<and> page_item_count 1 1 1 = 1"
  by code_simp

subsection \<open>C2: retention sweep\<close>

text \<open>
  C2, as the code has it, where Redis holds the scores of the store and the cutoff
  exactly (all within \<open>-2^53\<close> to \<open>2^53\<close>). With \<open>cutoff = now - days * 86400000\<close>, after
  \<open>cleanup_old_news\<close>: no entry with \<open>0 \<le> score \<le> cutoff\<close> is left in the global
  timeline; none is left in the timeline of a category of the registry when the global
  timeline held such an entry; no entry with \<open>score > cutoff\<close> is removed from the global
  or from any category timeline; and an id with no global entry at or below the cutoff
  keeps its projection and its detail.
\<close>

theorem sweep_retention:
  assumes "cutoff = cutoff_time now days" "r' = snd (cleanup_old_news now r days)"
    and "exact_score cutoff" "scores_exact r"
  shows "(\<forall>e \<in> set (zsets r' TIMELINE_ZSET). \<not> (0 \<le> snd e \<and> snd e \<le> cutoff))
   \<and> (c \<in> set (get_categories r)
        \<and> (\<exists>e \<in> set (zsets r TIMELINE_ZSET). 0 \<le> snd e \<and> snd e \<le> cutoff)
       \<longrightarrow> (\<forall>e \<in> set (zsets r' (CATEGORY_PREFIX @ c)). \<not> (0 \<le> snd e \<and> snd e \<le> cutoff)))
   \<and> (\<forall>e \<in> set (zsets r TIMELINE_ZSET). cutoff < snd e \<longrightarrow> e \<in> set (zsets r' TIMELINE_ZSET))
   \<and> (\<forall>e \<in> set (zsets r (CATEGORY_PREFIX @ c)).
         cutoff < snd e \<longrightarrow> e \<in> set (zsets r' (CATEGORY_PREFIX @ c)))
   \<and> ((\<forall>sc. (i, sc) \<in> set (zsets r TIMELINE_ZSET) \<longrightarrow> cutoff < sc)
       \<longrightarrow> hgetall r' (LIST_HASH_PREFIX @ i) = hgetall r (LIST_HASH_PREFIX @ i)
           \<and> get r' (DETAIL_PREFIX @ i) = get r (DETAIL_PREFIX @ i))"
proof (intro conjI impI ballI)
  fix e
  assume "e \<in> set (zsets r' TIMELINE_ZSET)"
  then show "\<not> (0 \<le> snd e \<and> snd e \<le> cutoff)"
    unfolding assms(1,2) by (simp add: cleanup_zsets_timeline in_score_range_def)
next
  fix e
  assume "c \<in> set (get_categories r)
      \<and> (\<exists>e \<in> set (zsets r TIMELINE_ZSET). 0 \<le> snd e \<and> snd e \<le> cutoff)"
    and "e \<in> set (zsets r' (CATEGORY_PREFIX @ c))"
  then show "\<not> (0 \<le> snd e \<and> snd e \<le> cutoff)"
    unfolding assms(1,2)
    by (auto simp: cleanup_zsets_category in_score_range_def get_categories_def
        zrangebyscore_empty_iff)
next
  fix e
  assume "e \<in> set (zsets r TIMELINE_ZSET)" "cutoff < snd e"
  then show "e \<in> set (zsets r' TIMELINE_ZSET)"
    unfolding assms(1,2) by (simp add: cleanup_zsets_timeline in_score_range_def)
next
  fix e
  assume "e \<in> set (zsets r (CATEGORY_PREFIX @ c))" "cutoff < snd e"
  then show "e \<in> set (zsets r' (CATEGORY_PREFIX @ c))"
    unfolding assms(1,2) by (simp add: cleanup_zsets_category in_score_range_def)
next
  assume a: "\<forall>sc. (i, sc) \<in> set (zsets r TIMELINE_ZSET) \<longrightarrow> cutoff < sc"
  have "i \<notin> set (zrangebyscore r TIMELINE_ZSET 0 (cutoff_time now days))"
    using a unfolding assms(1,2) old_ids_iff by fastforce
  then show "hgetall r' (LIST_HASH_PREFIX @ i) = hgetall r (LIST_HASH_PREFIX @ i)"
    and "get r' (DETAIL_PREFIX @ i) = get r (DETAIL_PREFIX @ i)"
    unfolding assms(1,2) by (simp_all add: hgetall_def get_def cleanup_hashes cleanup_strings)
qed

text \<open>
  C2, witness: sweeping the scenario store with cutoff 1500 removes \<^verbatim>\<open>a1\<close> (score 1000)
  from both timelines and leaves \<^verbatim>\<open>a2\<close> (score 2000) in both, with its projection.
\<close>

theorem sweep_retention_witness:
  "1500 = cutoff_time sweep_now 1
   \<and> exact_score 1500
   \<and> scores_exact (two_saves demo_dumps 5 6)
   \<and> ''tech'' \<in> set (get_categories (two_saves demo_dumps 5 6))
   \<and> (''a1'', 1000) \<in> set (zsets (two_saves demo_dumps 5 6) TIMELINE_ZSET)
   \<and> (''a1'', 1000) \<notin> set (zsets (snd (cleanup_old_news sweep_now (two_saves demo_dumps 5 6) 1))
                            TIMELINE_ZSET)
   \<and> (''a1'', 1000) \<notin> set (zsets (snd (cleanup_old_news sweep_now (two_saves demo_dumps 5 6) 1))
                            (CATEGORY_PREFIX @ ''tech''))
   \<and> (''a2'', 2000) \<in> set (zsets (snd (cleanup_old_news sweep_now (two_saves demo_dumps 5 6) 1))
                            TIMELINE_ZSET)
   \<and> (''a2'', 2000) \<in> set (zsets (snd (cleanup_old_news sweep_now (two_saves demo_dumps 5 6) 1))
                            (CATEGORY_PREFIX @ ''tech''))
   \<and> hgetall (snd (cleanup_old_news sweep_now (two_saves demo_dumps 5 6) 1)) (LIST_HASH_PREFIX @ ''a2'')
     = hgetall (two_saves demo_dumps 5 6) (LIST_HASH_PREFIX @ ''a2'')"
proof -
  have c: "1500 = cutoff_time sweep_now 1"
    by (simp add: cutoff_time_def sweep_now_def)
  have x: "exact_score 1500"
    by (simp add: exact_score_def)
  have s: "scores_exact (two_saves demo_dumps 5 6)"
    by (rule scores_exact_two_saves)
  show ?thesis
    using sweep_retention [where c = "''tech''" and r = "two_saves demo_dumps 5 6" and i = "''a2''",
        OF c refl x s] c x s
    by (auto simp: two_saves_timeline two_saves_category two_saves_categories)
qed

text \<open>
  C2, counterexample at the boundary: a record whose publish time equals the cutoff
  (1500) is removed from both timelines and loses its projection and detail, although
  its publish time is not below the cutoff.
\<close>

theorem sweep_removes_record_at_cutoff:
  "zscore boundary_store TIMELINE_ZSET ''a1'' = Some 1500
   \<and> cutoff_time sweep_now 1 = 1500
   \<and> zscore (snd (cleanup_old_news sweep_now boundary_store 1)) TIMELINE_ZSET ''a1'' = None
   \<and> zscore (snd (cleanup_old_news sweep_now boundary_store 1)) (CATEGORY_PREFIX @ ''tech'') ''a1''
       = None
   \<and> hgetall boundary_store (LIST_HASH_PREFIX @ ''a1'') \<noteq> []
   \<and> hgetall (snd (cleanup_old_news sweep_now boundary_store 1)) (LIST_HASH_PREFIX @ ''a1'') = []
   \<and> get boundary_store (DETAIL_PREFIX @ ''a1'') = Some ''{}''
   \<and> get (snd (cleanup_old_news sweep_now boundary_store 1)) (DETAIL_PREFIX @ ''a1'') = None"
  by code_simp

text \<open>
  Outside the statement above: the sweep visits the categories of the registry only, and
  \<open>delete_news\<close> unregisters a category while records of it remain. After deleting
  \<^verbatim>\<open>a2\<close> from the scenario store, a sweep with cutoff 1500 removes \<^verbatim>\<open>a1\<close> (score 1000)
  from the global timeline and deletes its projection, but leaves it in the timeline of
  \<^verbatim>\<open>tech\<close>.
\<close>

lemma sweep_skips_unregistered_category:
  "get_categories (snd (delete_news (two_saves demo_dumps 5 6) ''a2'' ''tech'')) = []
   \<and> zscore (snd (cleanup_old_news sweep_now
                 (snd (delete_news (two_saves demo_dumps 5 6) ''a2'' ''tech'')) 1))
        TIMELINE_ZSET ''a1'' = None
   \<and> zscore (snd (cleanup_old_news sweep_now
                 (snd (delete_news (two_saves demo_dumps 5 6) ''a2'' ''tech'')) 1))
        (CATEGORY_PREFIX @ ''tech'') ''a1'' = Some 1000
   \<and> hgetall (snd (cleanup_old_news sweep_now
                 (snd (delete_news (two_saves demo_dumps 5 6) ''a2'' ''tech'')) 1))
        (LIST_HASH_PREFIX @ ''a1'') = []"
proof -
  have reg: "sets (two_saves demo_dumps 5 6) CATEGORIES_SET = [''tech'']"
    using two_saves_categories [of demo_dumps 5 6] by (simp add: get_categories_def smembers_def)
  show ?thesis
    by (simp add: get_categories_def smembers_def zscore_def hgetall_def reg
        two_saves_timeline two_saves_category delete_news_sets delete_news_zsets_timeline
        delete_news_zsets_category cleanup_zsets_timeline cleanup_zsets_category cleanup_hashes
        old_ids_iff in_score_range_def cutoff_time_def sweep_now_def)
qed

subsection \<open>C3: the category registry\<close>

text \<open>
  C3, as the code has it. \<open>delete_news\<close> removes the given category from the registry
  and leaves every other category registered; \<open>cleanup_old_news\<close> never changes the
  registry.
\<close>

theorem registry_after_delete_and_sweep:
  "get_categories (snd (delete_news r news_id category)) = removeAll category (get_categories r)
   \<and> get_categories (snd (cleanup_old_news now r days)) = get_categories r"
  by (simp add: get_categories_def smembers_def delete_news_sets cleanup_sets)

text \<open>
  C3, counterexample: with two records in \<^verbatim>\<open>tech\<close>, deleting one of them empties the
  registry although the other record is still in the category timeline.
\<close>

theorem delete_unregisters_category:
  "get_categories (two_saves demo_dumps 5 6) = [''tech'']
   \<and> get_categories (snd (delete_news (two_saves demo_dumps 5 6) ''a1'' ''tech'')) = []
   \<and> zscore (snd (delete_news (two_saves demo_dumps 5 6) ''a1'' ''tech''))
        (CATEGORY_PREFIX @ ''tech'') ''a2'' = Some 2000"
  by (simp add: two_saves_def get_categories_def smembers_def zscore_def delete_news_sets
      delete_news_zsets_category save_news_sets save_news_zsets_category empty_redis_def
      zadd_members_def save_score_def)

subsection \<open>C5: the scenario\<close>

text \<open>
  C5. From the empty store, after saving \<^verbatim>\<open>a1\<close> (title T1, publish time 1000) and
  \<^verbatim>\<open>a2\<close> (title T2, publish time 2000) in \<^verbatim>\<open>tech\<close>, whatever the clock and the codec:
  page 1 of size 1 is the one item of \<^verbatim>\<open>a2\<close> with title T2, \<open>total = 2\<close> and
  \<open>has_next\<close> true; page 2 of size 1 is the one item of \<^verbatim>\<open>a1\<close> with title T1 and
  \<open>has_next\<close> false. (An item carries all six projection fields and the id.)
\<close>

theorem scenario_two_saves:
  "get_news_list (two_saves dumps now1 now2) (Some ''tech'') 1 1 =
     Inr \<lparr>items = [[(''title'', StrV ''T2''), (''category'', StrV ''tech''),
                     (''publish_time'', IntV 2000), (''author'', StrV ''''),
                     (''pic_path'', StrV ''''), (''url'', StrV ''''), (''id'', StrV ''a2'')]],
          total = 2, page = 1, page_size = 1, has_next = True\<rparr>
   \<and> get_news_list (two_saves dumps now1 now2) (Some ''tech'') 2 1 =
     Inr \<lparr>items = [[(''title'', StrV ''T1''), (''category'', StrV ''tech''),
                     (''publish_time'', IntV 1000), (''author'', StrV ''''),
                     (''pic_path'', StrV ''''), (''url'', StrV ''''), (''id'', StrV ''a1'')]],
          total = 2, page = 2, page_size = 1, has_next = False\<rparr>"
  by code_simp

subsection \<open>C6: saving an id again\<close>

text \<open>
  C6, as the code has it. After two saves of one id in one category, the global timeline
  and the category timeline each hold exactly one entry for the id; its score is the
  publish time of the second save, or the clock of the second save when that publish
  time is \<^verbatim>\<open>None\<close> or 0, provided Redis holds that score exactly (it lies within
  \<open>-2^53\<close> to \<open>2^53\<close>).
\<close>

theorem resave_single_entry:
  assumes "s = (case pt2 of None \<Rightarrow> now2 | Some p \<Rightarrow> if p = 0 then now2 else p)"
    and "exact_score s"
  shows "filter (\<lambda>e. fst e = news_id)
     (zsets (snd (save_news dumps now2 (snd (save_news dumps now1 r news_id d1 category pt1))
                    news_id d2 category pt2)) TIMELINE_ZSET)
     = [(news_id, s)]
   \<and> filter (\<lambda>e. fst e = news_id)
     (zsets (snd (save_news dumps now2 (snd (save_news dumps now1 r news_id d1 category pt1))
                    news_id d2 category pt2)) (CATEGORY_PREFIX @ category))
     = [(news_id, s)]"
  unfolding assms(1)
  by (simp add: save_news_zsets_timeline save_news_zsets_category zadd_members_single
      save_score_def)

text \<open>
  C6, witness: saving \<^verbatim>\<open>a1\<close> with publish time 1000 and then with publish time 2000
  leaves one entry in each timeline, with score 2000.
\<close>

theorem resave_single_entry_witness:
  "exact_score 2000
   \<and> filter (\<lambda>e. fst e = ''a1'')
       (zsets (snd (save_news demo_dumps 6
                 (snd (save_news demo_dumps 5 empty_redis ''a1'' [] ''tech'' (Some 1000)))
                 ''a1'' [] ''tech'' (Some 2000))) TIMELINE_ZSET)
     = [(''a1'', 2000)]
   \<and> filter (\<lambda>e. fst e = ''a1'')
       (zsets (snd (save_news demo_dumps 6
                 (snd (save_news demo_dumps 5 empty_redis ''a1'' [] ''tech'' (Some 1000)))
                 ''a1'' [] ''tech'' (Some 2000))) (CATEGORY_PREFIX @ ''tech''))
     = [(''a1'', 2000)]"
proof -
  have s: "(2000::int) = (case Some 2000 of None \<Rightarrow> 6 | Some p \<Rightarrow> if p = 0 then 6 else p)"
    by simp
  have x: "exact_score 2000"
    by (simp add: exact_score_def)
  show ?thesis
    using resave_single_entry [OF s x, of "''a1''" demo_dumps 5 empty_redis "[]" "''tech''"
        "Some 1000" "[]"] x
    by blast
qed

text \<open>
  C6, counterexample: saving \<^verbatim>\<open>a1\<close> with publish time 1000 and then with publish time 0
  (clock 7777) leaves the score 7777, not the publish time 0 of the later save.
\<close>

theorem resave_with_zero_takes_clock:
  "zscore resaved_store TIMELINE_ZSET ''a1'' = Some 7777
   \<and> zscore resaved_store TIMELINE_ZSET ''a1'' \<noteq> Some 0
   \<and> zscore resaved_store (CATEGORY_PREFIX @ ''tech'') ''a1'' = Some 7777"
  by (simp add: resaved_store_def zscore_def save_news_zsets_timeline save_news_zsets_category
      zscore_zadd_members save_score_def)

subsection \<open>C7: arguments are not validated\<close>

text \<open>
  C7, as the code has it. No method checks its arguments, and there is no
  \<^verbatim>\<open>InvalidArgument\<close> failure. \<open>save_news\<close> with an empty id (and a score Redis holds
  exactly) returns \<^verbatim>\<open>True\<close> and stores the record under the empty id; \<open>delete_news\<close>
  with an empty id returns \<^verbatim>\<open>True\<close> after deleting under the empty id.
  \<open>get_news_list\<close> treats a page or page size below 1 like any other: on an empty
  timeline it returns the empty result; on a readable store, when both rank indices are
  signed 64-bit integers, it returns a result with the true total and the items of
  whatever window \<^verbatim>\<open>ZREVRANGE\<close> gives for the indices; when an index is no signed 64-bit
  integer and the timeline is not empty, the range call fails and the method raises.
\<close>

theorem no_argument_validation:
  "(exact_score (save_score pt now) \<longrightarrow>
      fst (save_news dumps now r '''' d category pt) = True
    \<and> zscore (snd (save_news dumps now r '''' d category pt)) TIMELINE_ZSET ''''
        = Some (save_score pt now)
    \<and> hgetall (snd (save_news dumps now r '''' d category pt)) (LIST_HASH_PREFIX @ '''') \<noteq> []
    \<and> get (snd (save_news dumps now r '''' d category pt)) (DETAIL_PREFIX @ '''') = Some (dumps d))
   \<and> fst (delete_news r '''' category) = True
   \<and> hgetall (snd (delete_news r '''' category)) (LIST_HASH_PREFIX @ '''') = []
   \<and> get (snd (delete_news r '''' category)) (DETAIL_PREFIX @ '''') = None
   \<and> zscore (snd (delete_news r '''' category)) TIMELINE_ZSET '''' = None
   \<and> (projections_ok r \<and> ranks_ok pg pg_size \<longrightarrow>
        (\<exists>res. get_news_list r cat pg pg_size = Inr res
           \<and> total res = zcard r (zset_key_of cat) \<and> page res = pg \<and> page_size res = pg_size
           \<and> map item_id (items res) =
               map (\<lambda>i. Some (StrV i))
                 (filter (\<lambda>i. hgetall r (LIST_HASH_PREFIX @ i) \<noteq> [])
                    (map fst (page_window r cat pg pg_size)))))
   \<and> (\<not> ranks_ok pg pg_size \<and> zcard r (zset_key_of cat) \<noteq> 0 \<longrightarrow>
        (\<exists>e. get_news_list r cat pg pg_size = Inl e))
   \<and> (zcard r (zset_key_of cat) = 0 \<longrightarrow>
        get_news_list r cat pg pg_size =
          Inr \<lparr>items = [], total = 0, page = pg, page_size = pg_size, has_next = False\<rparr>)"
proof -
  have "\<exists>res. get_news_list r cat pg pg_size = Inr res
           \<and> total res = zcard r (zset_key_of cat) \<and> page res = pg \<and> page_size res = pg_size
           \<and> map item_id (items res) =
               map (\<lambda>i. Some (StrV i))
                 (filter (\<lambda>i. hgetall r (LIST_HASH_PREFIX @ i) \<noteq> [])
                    (map fst (page_window r cat pg pg_size)))"
    if "projections_ok r \<and> ranks_ok pg pg_size"
    using get_news_list_result [of r pg pg_size cat] that by blast
  moreover have "\<exists>e. get_news_list r cat pg pg_size = Inl e"
    if "\<not> ranks_ok pg pg_size \<and> zcard r (zset_key_of cat) \<noteq> 0"
    using get_news_list_range_error that by blast
  moreover have "get_news_list r cat pg pg_size =
      Inr \<lparr>items = [], total = 0, page = pg, page_size = pg_size, has_next = False\<rparr>"
    if "zcard r (zset_key_of cat) = 0"
    using that by (rule get_news_list_empty_timeline)
  ultimately show ?thesis
    using save_news_writes_all [where dumps = dumps and now = now and r = r
        and news_id = "''''" and d = d and category = category and pt = pt]
      delete_news_removes [of r "''''" category]
    by blast
qed

text \<open>
  C7, witness: a save with an empty id and publish time 1000 returns \<^verbatim>\<open>True\<close>, and
  page 0 with page size -3 on the scenario store returns a result.
\<close>

theorem no_argument_validation_witness:
  "exact_score (save_score (Some 1000) 5)
   \<and> fst (save_news demo_dumps 5 (two_saves demo_dumps 5 6) '''' [] ''tech'' (Some 1000)) = True
   \<and> projections_ok (two_saves demo_dumps 5 6)
   \<and> ranks_ok 0 (- 3)
   \<and> (\<exists>res. get_news_list (two_saves demo_dumps 5 6) None 0 (- 3) = Inr res
         \<and> total res = 2 \<and> page res = 0 \<and> page_size res = - 3)"
proof -
  have x: "exact_score (save_score (Some 1000) 5)"
    by (simp add: save_score_def exact_score_def)
  have ok: "projections_ok (two_saves demo_dumps 5 6)"
    unfolding two_saves_def by (intro projections_ok_save projections_ok_empty)
  have rk: "ranks_ok 0 (- 3)"
    by (simp add: ranks_ok_def int64_ok_def)
  have card: "zcard (two_saves demo_dumps 5 6) (zset_key_of None) = 2"
    by (simp add: zcard_def zset_key_of_def two_saves_timeline)
  show ?thesis
    using no_argument_validation [of "Some 1000" 5 demo_dumps "two_saves demo_dumps 5 6" "[]"
        "''tech''" 0 "- 3" None] x ok rk
    by (auto simp: card)
qed

text \<open>
  C7, counterexample: page 0 of size 1 is answered (with the oldest record, since the
  window is ranks -1 to -1), a save with an empty id succeeds and writes the timeline,
  and a delete with an empty id succeeds and unregisters the category.
\<close>

theorem invalid_arguments_accepted:
  "get_news_list (two_saves demo_dumps 5 6) (Some ''tech'') 0 1 =
     Inr \<lparr>items = [[(''title'', StrV ''T1''), (''category'', StrV ''tech''),
                     (''publish_time'', IntV 1000), (''author'', StrV ''''),
                     (''pic_path'', StrV ''''), (''url'', StrV ''''), (''id'', StrV ''a1'')]],
          total = 2, page = 0, page_size = 1, has_next = True\<rparr>
   \<and> fst (save_news demo_dumps 5 empty_redis '''' [(''title'', ''T'')] ''tech'' (Some 1000)) = True
   \<and> zscore (snd (save_news demo_dumps 5 empty_redis '''' [(''title'', ''T'')] ''tech'' (Some 1000)))
        TIMELINE_ZSET '''' = Some 1000
   \<and> fst (delete_news (two_saves demo_dumps 5 6) '''' ''tech'') = True
   \<and> get_categories (snd (delete_news (two_saves demo_dumps 5 6) '''' ''tech'')) = []"
proof -
  have "get_news_list (two_saves demo_dumps 5 6) (Some ''tech'') 0 1 =
     Inr \<lparr>items = [[(''title'', StrV ''T1''), (''category'', StrV ''tech''),
                     (''publish_time'', IntV 1000), (''author'', StrV ''''),
                     (''pic_path'', StrV ''''), (''url'', StrV ''''), (''id'', StrV ''a1'')]],
          total = 2, page = 0, page_size = 1, has_next = True\<rparr>"
    by code_simp
  moreover have "get_categories (snd (delete_news (two_saves demo_dumps 5 6) '''' ''tech'')) = []"
    by (simp add: two_saves_def get_categories_def smembers_def delete_news_sets save_news_sets
        empty_redis_def)
  moreover have "zscore (snd (save_news demo_dumps 5 empty_redis '''' [(''title'', ''T'')] ''tech''
      (Some 1000))) TIMELINE_ZSET '''' = Some 1000"
    by (simp add: zscore_def save_news_zsets_timeline zscore_zadd_members save_score_def)
  ultimately show ?thesis
    by (simp add: save_news_def delete_news_def Let_def)
qed

subsection \<open>C8: absent details\<close>

text \<open>
  C8. \<open>get_news_detail\<close> returns \<^verbatim>\<open>None\<close>, not an error, for an id that no call of the
  history saved, and for an id that a sweep has just removed (one of its old ids); the two
  answers are the same value.
\<close>

theorem detail_absent:
  "((\<forall>op \<in> set ops. \<not> saves news_id op)
      \<longrightarrow> get_news_detail loads (run dumps ops) news_id = Inr None)
   \<and> (news_id \<in> set (zrangebyscore r TIMELINE_ZSET 0 (cutoff_time now days))
      \<longrightarrow> get_news_detail loads (snd (cleanup_old_news now r days)) news_id = Inr None)"
  by (simp add: get_news_detail_def get_def never_saved_run cleanup_strings)

text \<open>
  C8, witness: \<^verbatim>\<open>a9\<close> was never saved; \<^verbatim>\<open>a1\<close> has a detail before the sweep with cutoff
  1500 and none after it.
\<close>

theorem detail_absent_witness:
  "\<not> saves ''a9'' (Save ''a1'' [(''title'', ''T1'')] ''tech'' (Some 1000) 5)
   \<and> \<not> saves ''a9'' (Delete ''a9'' ''tech'')
   \<and> \<not> saves ''a9'' (Sweep 1 sweep_now)
   \<and> get_news_detail demo_loads
        (run demo_dumps [Save ''a1'' [(''title'', ''T1'')] ''tech'' (Some 1000) 5,
                         Delete ''a9'' ''tech'', Sweep 1 sweep_now]) ''a9'' = Inr None
   \<and> ''a1'' \<in> set (zrangebyscore (two_saves demo_dumps 5 6) TIMELINE_ZSET 0 (cutoff_time sweep_now 1))
   \<and> get_news_detail demo_loads (two_saves demo_dumps 5 6) ''a1'' = Inr (Some [(''id'', ''a1'')])
   \<and> get_news_detail demo_loads (snd (cleanup_old_news sweep_now (two_saves demo_dumps 5 6) 1)) ''a1''
       = Inr None"
proof -
  have h1: "\<forall>op \<in> set [Save ''a1'' [(''title'', ''T1'')] ''tech'' (Some 1000) 5,
      Delete ''a9'' ''tech'', Sweep 1 sweep_now]. \<not> saves ''a9'' op"
    by simp
  have h2: "''a1'' \<in> set (zrangebyscore (two_saves demo_dumps 5 6) TIMELINE_ZSET 0
      (cutoff_time sweep_now 1))"
    unfolding old_ids_iff
    by (intro exI [of _ 1000]) (simp add: two_saves_timeline cutoff_time_def sweep_now_def)
  have before: "get_news_detail demo_loads (two_saves demo_dumps 5 6) ''a1''
      = Inr (Some [(''id'', ''a1'')])"
    by (simp add: get_news_detail_def get_def two_saves_def save_news_strings demo_dumps_def
        demo_loads_def)
  have s: "\<not> saves ''a9'' (Save ''a1'' [(''title'', ''T1'')] ''tech'' (Some 1000) 5)
      \<and> \<not> saves ''a9'' (Delete ''a9'' ''tech'') \<and> \<not> saves ''a9'' (Sweep 1 sweep_now)"
    by simp
  show ?thesis
    using detail_absent [of "[Save ''a1'' [(''title'', ''T1'')] ''tech'' (Some 1000) 5,
        Delete ''a9'' ''tech'', Sweep 1 sweep_now]" "''a9''" demo_loads demo_dumps]
      detail_absent [of "[]" "''a1''" demo_loads demo_dumps "two_saves demo_dumps 5 6" sweep_now 1]
      h1 h2 before s
    by blast
qed

subsection \<open>C9: the \<open>has_next\<close> flag\<close>

text \<open>
  C9, as the code has it. A call on a readable store whose two rank indices are signed
  64-bit integers returns; for every call that returns, \<open>has_next\<close> is \<open>(page-1)*pageSize + len(items) < total\<close> when the id window is
  not empty, and false when the window is empty, in particular when the timeline is
  empty. An absent projection lowers the item count, and that can only make \<open>has_next\<close>
  true: whenever an id of the window was dropped, and whenever
  \<open>page*pageSize < total\<close> on a valid page, \<open>has_next\<close> is true.
\<close>

theorem has_next_flag:
  "(projections_ok r \<and> ranks_ok pg pg_size \<longrightarrow>
      (\<exists>res. get_news_list r category pg pg_size = Inr res))
   \<and> (\<forall>res. get_news_list r category pg pg_size = Inr res \<longrightarrow>
        (page_window r category pg pg_size \<noteq> [] \<longrightarrow>
           has_next res = ((pg - 1) * pg_size + int (length (items res)) < int (total res)))
      \<and> (page_window r category pg pg_size = [] \<longrightarrow> \<not> has_next res)
      \<and> (zcard r (zset_key_of category) = 0 \<longrightarrow> \<not> has_next res)
      \<and> length (items res) \<le> length (page_window r category pg pg_size)
      \<and> (length (items res) < length (page_window r category pg pg_size) \<longrightarrow> has_next res)
      \<and> (1 \<le> pg \<and> 1 \<le> pg_size \<and> pg * pg_size < int (total res) \<longrightarrow> has_next res))"
proof (intro conjI allI impI)
  assume "projections_ok r \<and> ranks_ok pg pg_size"
  then show "\<exists>res. get_news_list r category pg pg_size = Inr res"
    using get_news_list_result by blast
next
  fix res
  assume res: "get_news_list r category pg pg_size = Inr res"
  {
    assume "page_window r category pg pg_size \<noteq> []"
    then show "has_next res = ((pg - 1) * pg_size + int (length (items res)) < int (total res))"
      using get_news_list_fields(2) [OF res] by simp
  next
    assume "page_window r category pg pg_size = []"
    then show "\<not> has_next res"
      using get_news_list_fields(2) [OF res] by simp
  next
    assume "zcard r (zset_key_of category) = 0"
    then have "page_window r category pg pg_size = []"
      by (simp add: page_window_def zcard_def zrevrange_entries_empty)
    then show "\<not> has_next res"
      using get_news_list_fields(2) [OF res] by simp
  next
    show "length (items res) \<le> length (page_window r category pg pg_size)"
      using res by (rule items_le_window)
  next
    assume "length (items res) < length (page_window r category pg pg_size)"
    with res show "has_next res"
      by (rule dropped_item_has_next)
  next
    assume "1 \<le> pg \<and> 1 \<le> pg_size \<and> pg * pg_size < int (total res)"
    with res show "has_next res"
      using more_data_has_next by blast
  }
qed

text \<open>
  C9, witness: on the store whose only \<^verbatim>\<open>tech\<close> id has lost its projection, page 1 of
  size 1 has a window of one id, no item, and \<open>has_next = (0 + 0 < 1)\<close>.
\<close>

theorem has_next_flag_witness:
  "projections_ok orphan_store
   \<and> get_news_list orphan_store (Some ''tech'') 1 1 =
       Inr \<lparr>items = [], total = 1, page = 1, page_size = 1, has_next = True\<rparr>
   \<and> page_window orphan_store (Some ''tech'') 1 1 = [(''a1'', 1000)]
   \<and> has_next \<lparr>items = [], total = 1, page = 1, page_size = 1, has_next = True\<rparr>
       = ((1 - 1) * 1 + int (length ([] :: item list)) < int 1)"
proof -
  have ok: "projections_ok orphan_store"
    unfolding orphan_store_def
    by (intro projections_ok_delete projections_ok_save projections_ok_empty)
  have res: "get_news_list orphan_store (Some ''tech'') 1 1 =
       Inr \<lparr>items = [], total = 1, page = 1, page_size = 1, has_next = True\<rparr>"
    by code_simp
  have win: "page_window orphan_store (Some ''tech'') 1 1 = [(''a1'', 1000)]"
    by code_simp
  show ?thesis
    using has_next_flag [where r = orphan_store and category = "Some ''tech''" and pg = 1
        and pg_size = 1] ok res win
    by simp
qed

text \<open>
  C9, counterexample to the last clause: there is no call in which a projection of the
  window is absent, \<open>page*pageSize < total\<close>, and \<open>has_next\<close> is false.
\<close>

theorem dropped_projection_keeps_has_next:
  "\<not> (\<exists>r category pg pg_size res.
        get_news_list r category pg pg_size = Inr res
        \<and> length (items res) < length (page_window r category pg pg_size)
        \<and> pg * pg_size < int (total res)
        \<and> \<not> has_next res)"
  using dropped_item_has_next by blast

subsection \<open>C10: publish time 0\<close>

text \<open>
  C10, as the code has it. A save with publish time 0 is the same call as a save without
  publish time. For a clock reading Redis holds exactly, the score in both timelines is
  the clock and the projection's \<^verbatim>\<open>publish_time\<close> is the clock's decimal string. A save
  (with a score Redis holds exactly) leaves the saved id with score 0 exactly when the
  publish time is 0 or \<^verbatim>\<open>None\<close> and the clock itself reads 0.
\<close>

theorem zero_publish_time_takes_clock:
  "save_news dumps now r news_id d category (Some 0) = save_news dumps now r news_id d category None
   \<and> (exact_score now \<longrightarrow>
        zscore (snd (save_news dumps now r news_id d category (Some 0))) TIMELINE_ZSET news_id
          = Some now
      \<and> zscore (snd (save_news dumps now r news_id d category (Some 0)))
          (CATEGORY_PREFIX @ category) news_id = Some now
      \<and> map_of (hgetall (snd (save_news dumps now r news_id d category (Some 0)))
          (LIST_HASH_PREFIX @ news_id)) ''publish_time'' = Some (py_str now))
   \<and> (exact_score (save_score pt now) \<longrightarrow>
        (zscore (snd (save_news dumps now r news_id d category pt)) TIMELINE_ZSET news_id = Some 0
           \<longleftrightarrow> (pt = None \<or> pt = Some 0) \<and> now = 0)
      \<and> (zscore (snd (save_news dumps now r news_id d category pt)) (CATEGORY_PREFIX @ category)
            news_id = Some 0
           \<longleftrightarrow> (pt = None \<or> pt = Some 0) \<and> now = 0))"
proof -
  have "save_score (Some 0) now = save_score None now"
    by (simp add: save_score_def)
  then have same: "save_news dumps now r news_id d category (Some 0)
      = save_news dumps now r news_id d category None"
    by (simp add: save_news_def)
  have zero: "save_score pt now = 0 \<longleftrightarrow> (pt = None \<or> pt = Some 0) \<and> now = 0"
    by (auto simp: save_score_def split: option.splits)
  have tl: "zscore (snd (save_news dumps now r news_id d category p)) TIMELINE_ZSET news_id
      = Some (save_score p now)" for p
    by (simp add: zscore_def save_news_zsets_timeline zscore_zadd_members)
  have ct: "zscore (snd (save_news dumps now r news_id d category p)) (CATEGORY_PREFIX @ category)
      news_id = Some (save_score p now)" for p
    by (simp add: zscore_def save_news_zsets_category zscore_zadd_members)
  have pt0: "save_score (Some 0) now = now"
    by (simp add: save_score_def)
  have h: "map_of (hgetall (snd (save_news dumps now r news_id d category (Some 0)))
      (LIST_HASH_PREFIX @ news_id)) ''publish_time'' = Some (py_str now)"
    by (simp add: hgetall_def save_news_hashes saved_projection_publish_time pt0)
  have pn: "save_score None now = now"
    by (simp add: save_score_def)
  show ?thesis
    using h zero by (simp add: same tl ct pn)
qed

text \<open>C10, witness: with the clock at 7777, a save with publish time 0 gives score 7777.\<close>

theorem zero_publish_time_takes_clock_witness:
  "exact_score 7777
   \<and> exact_score (save_score (Some 0) 7777)
   \<and> zscore (snd (save_news demo_dumps 7777 empty_redis ''a1'' [] ''tech'' (Some 0)))
       TIMELINE_ZSET ''a1'' = Some 7777
   \<and> zscore (snd (save_news demo_dumps 7777 empty_redis ''a1'' [] ''tech'' (Some 0)))
       TIMELINE_ZSET ''a1'' \<noteq> Some 0"
proof -
  have x: "exact_score 7777"
    by (simp add: exact_score_def)
  have y: "exact_score (save_score (Some 0) 7777)"
    by (simp add: exact_score_def save_score_def)
  from x y zero_publish_time_takes_clock
    [of demo_dumps 7777 empty_redis "''a1''" "[]" "''tech''" "Some 0"]
  show ?thesis
    by auto
qed

text \<open>
  C10, counterexample: with the clock at 0, a save with publish time 0 stores score 0 in
  both timelines, so a score of 0 is produced through \<open>save_news\<close>.
\<close>

theorem save_at_clock_zero_scores_zero:
  "zscore (snd (save_news demo_dumps 0 empty_redis ''a1'' [] ''tech'' (Some 0)))
       TIMELINE_ZSET ''a1'' = Some 0
   \<and> zscore (snd (save_news demo_dumps 0 empty_redis ''a1'' [] ''tech'' (Some 0)))
       (CATEGORY_PREFIX @ ''tech'') ''a1'' = Some 0"
  by (simp add: zscore_def save_news_zsets_timeline save_news_zsets_category
      zscore_zadd_members save_score_def)


end
